theory Spec2Isabelle
  imports
    Main
    "HOL-Library.Sublist"
    "HOL-Library.AList"
    "HOL-Library.Char_ord"
    "HOL-Library.List_Lexorder"
begin

section \<open>The backup script \<open>scripts/backup_db.py\<close>\<close>

text \<open>
  The script reads three environment variables, checks that the database exists, creates
  the output directory, takes an online copy of the database into a temporary file,
  renames it, compresses it, removes the uncompressed copy, prints the path and rotates
  old backups. The model below follows \<open>main\<close> line by line. Everything the script
  obtains from outside is an input of the model:
  \<^item> the filesystem, a store from path strings to entries (file with bytes, or directory),
    keyed by the paths exactly as the script spells them (no normalisation, no links;
    ancestors of the output directory are not tracked);
  \<^item> the content of the source database's own files (main file, write-ahead log,
    shared-memory index), which only the database engine reads and writes;
  \<^item> the environment and the clock;
  \<^item> the outcome of every call that can fail for reasons outside the store
    (permissions, database locks, I/O errors), what the built-in \<open>int\<close> makes of the
    retention count, and the bytes the database engine and the compressor produce.
  Closing a connection or a file and printing are taken to succeed.
\<close>

subsection \<open>Filesystem store\<close>

type_synonym path = string
type_synonym bytes = string

datatype entry = File bytes | Dir

type_synonym store = "(path \<times> entry) list"

text \<open>Every call of the script that changes (or tries to change) the filesystem is logged.\<close>

datatype fs_op =
    MkDir path
  | OpenCreate path
  | WriteFile path
  | Rename path path
  | Unlink path

fun touches :: "fs_op \<Rightarrow> path set" where
  "touches (MkDir p) = {p}"
| "touches (OpenCreate p) = {p}"
| "touches (WriteFile p) = {p}"
| "touches (Rename p q) = {p, q}"
| "touches (Unlink p) = {p}"

text \<open>
  The source database as the engine has it on disk: the main file, and the write-ahead
  log (\<open>-wal\<close>) and shared-memory index (\<open>-shm\<close>) beside it when they exist. The store
  has an entry at the database path as well, which says that a file is there
  (\<open>os.path.exists\<close>, file or directory); no step reads the bytes of that entry, and what
  the engine writes goes to \<open>source\<close>.
\<close>

record source_db =
  main_file :: bytes
  wal_file :: "bytes option"
  shm_file :: "bytes option"

record state =
  store :: store
  source :: source_db
  out :: "string list"
  err :: "string list"
  trace :: "fs_op list"

datatype exn = ValueError | FileExistsError | OSError | SqliteError

datatype outcome = Returned | SysExit nat | Uncaught exn

text \<open>The process status: 0 on return, the argument of \<open>sys.exit\<close>, 1 on an uncaught exception.\<close>

fun exit_code :: "outcome \<Rightarrow> nat" where
  "exit_code Returned = 0"
| "exit_code (SysExit n) = n"
| "exit_code (Uncaught e) = 1"

definition lookup :: "state \<Rightarrow> path \<Rightarrow> entry option" where
  "lookup s p = map_of (store s) p"

definition put :: "path \<Rightarrow> entry \<Rightarrow> fs_op \<Rightarrow> state \<Rightarrow> state" where
  "put p e op s = s\<lparr>store := AList.update p e (store s), trace := trace s @ [op]\<rparr>"

definition log_op :: "fs_op \<Rightarrow> state \<Rightarrow> state" where
  "log_op op s = s\<lparr>trace := trace s @ [op]\<rparr>"

subsection \<open>Inputs from outside the script\<close>

record datetime =
  year :: nat
  month :: nat
  day :: nat
  hour :: nat
  minute :: nat
  second :: nat

datatype copy_result = CopyOk bytes | CopyFailed bytes

datatype write_result = WriteOk | WriteFailed bytes

text \<open>
  \<open>keep_int\<close> is the outcome of the call \<open>int(...)\<close> of line 13 on the value of
  \<open>EDRMOUNT_BACKUP_KEEP\<close>: \<open>None\<close> when it raises \<open>ValueError\<close>. Which strings \<open>int\<close>
  accepts is a matter of the interpreter (its Unicode tables for digits and spaces, its
  limit on the number of digits and the setting that overrides it), not of the script.
  \<open>opened\<close>, \<open>checkpointed\<close> and \<open>closed\<close> are what the engine makes of the source
  database's own files when the connection of line 26 is opened, when the checkpoint of
  line 30 runs (it merges the write-ahead log into the main file), and when the connection
  is closed at line 40 (the last connection to close removes the \<open>-wal\<close> and \<open>-shm\<close>
  files).
\<close>

record world =
  environ :: "string \<Rightarrow> string option"
  keep_int :: "int option"
  now :: datetime
  makedirs_denied :: bool
  connect_ok :: bool
  opened :: "source_db \<Rightarrow> source_db"
  busy_timeout_ok :: bool
  checkpoint_ok :: bool
  checkpointed :: "source_db \<Rightarrow> source_db"
  closed :: "source_db \<Rightarrow> source_db"
  connect_tmp_ok :: bool
  backup_result :: copy_result
  replace_ok :: bool
  open_in_ok :: bool
  gzip_open_ok :: bool
  gzip_write :: write_result
  gzip :: "bytes \<Rightarrow> bytes"
  remove_denied :: "path \<Rightarrow> bool"
  listdir_denied :: bool

subsection \<open>Library functions the script calls\<close>

text \<open>\<open>os.environ.get(k, default)\<close>\<close>

definition environ_get :: "world \<Rightarrow> string \<Rightarrow> string \<Rightarrow> string" where
  "environ_get w k dflt = (case environ w k of None \<Rightarrow> dflt | Some v \<Rightarrow> v)"

text \<open>\<open>os.path.join(a, b)\<close> (posixpath)\<close>

definition path_join :: "path \<Rightarrow> string \<Rightarrow> path" where
  "path_join a b =
     (if prefix ''/'' b then b
      else if a = [] \<or> suffix ''/'' a then a @ b
      else a @ ''/'' @ b)"

text \<open>\<open>datetime.strftime('%Y%m%d-%H%M%S')\<close>: zero-padded decimal fields.\<close>

definition digit_char :: "nat \<Rightarrow> char" where
  "digit_char n = char_of (48 + n mod 10)"

fun decimal :: "nat \<Rightarrow> string" where
  "decimal n = (if n < 10 then [digit_char n] else decimal (n div 10) @ [digit_char n])"

declare decimal.simps [simp del]

definition zero_pad :: "nat \<Rightarrow> string \<Rightarrow> string" where
  "zero_pad k s = replicate (k - length s) CHR ''0'' @ s"

definition strftime :: "datetime \<Rightarrow> string" where
  "strftime t =
     zero_pad 4 (decimal (year t)) @ zero_pad 2 (decimal (month t)) @ zero_pad 2 (decimal (day t))
     @ ''-'' @
     zero_pad 2 (decimal (hour t)) @ zero_pad 2 (decimal (minute t)) @ zero_pad 2 (decimal (second t))"

text \<open>\<open>os.path.exists(p)\<close>; the empty path never exists.\<close>

definition path_exists :: "state \<Rightarrow> path \<Rightarrow> bool" where
  "path_exists s p = (p \<noteq> [] \<and> lookup s p \<noteq> None)"

text \<open>
  \<open>os.makedirs(d, exist_ok=True)\<close>: nothing changes when \<open>d\<close> is a directory; an error when
  \<open>d\<close> is a file, is the empty path, or cannot be created.
\<close>

definition makedirs :: "world \<Rightarrow> path \<Rightarrow> state \<Rightarrow> (exn + unit) \<times> state" where
  "makedirs w d s =
     (if d = [] then (Inl OSError, log_op (MkDir d) s)
      else case lookup s d of
        Some Dir \<Rightarrow> (Inr (), log_op (MkDir d) s)
      | Some (File b) \<Rightarrow> (Inl FileExistsError, log_op (MkDir d) s)
      | None \<Rightarrow>
          if makedirs_denied w then (Inl OSError, log_op (MkDir d) s)
          else (Inr (), put d Dir (MkDir d) s))"

text \<open>
  \<open>os.listdir(d)\<close>: the names of the direct children of \<open>d\<close>, each once. A child of \<open>d\<close>
  is a path \<open>d/n\<close> with \<open>n\<close> non-empty and free of slashes.
\<close>

definition dir_prefix :: "path \<Rightarrow> path" where
  "dir_prefix d = (if suffix ''/'' d then d else d @ ''/'')"

definition child_name :: "path \<Rightarrow> path \<Rightarrow> string option" where
  "child_name d p =
     (if prefix (dir_prefix d) p
      then (let n = drop (length (dir_prefix d)) p
            in if n \<noteq> [] \<and> CHR ''/'' \<notin> set n then Some n else None)
      else None)"

definition children :: "path \<Rightarrow> state \<Rightarrow> string list" where
  "children d s = remdups (List.map_filter (child_name d) (map fst (store s)))"

definition listdir :: "world \<Rightarrow> path \<Rightarrow> state \<Rightarrow> exn + string list" where
  "listdir w d s =
     (if d = [] \<or> lookup s d \<noteq> Some Dir \<or> listdir_denied w then Inl OSError
      else Inr (children d s))"

text \<open>\<open>os.remove(p)\<close>: only a file can be removed, and the removal may be denied.\<close>

definition os_remove :: "world \<Rightarrow> path \<Rightarrow> state \<Rightarrow> (exn + unit) \<times> state" where
  "os_remove w p s =
     (case lookup s p of
        Some (File b) \<Rightarrow>
          if remove_denied w p then (Inl OSError, log_op (Unlink p) s)
          else (Inr (), s\<lparr>store := AList.delete p (store s), trace := trace s @ [Unlink p]\<rparr>)
      | _ \<Rightarrow> (Inl OSError, log_op (Unlink p) s))"

text \<open>
  \<open>os.replace(src, dst)\<close>, for a source that is a file: the destination is overwritten
  unless it is a directory.
\<close>

definition os_replace :: "world \<Rightarrow> path \<Rightarrow> path \<Rightarrow> state \<Rightarrow> (exn + unit) \<times> state" where
  "os_replace w src dst s =
     (case lookup s src of
        Some (File b) \<Rightarrow>
          if replace_ok w \<and> lookup s dst \<noteq> Some Dir
          then (Inr (), s\<lparr>store := AList.update dst (File b) (AList.delete src (store s)),
                          trace := trace s @ [Rename src dst]\<rparr>)
          else (Inl OSError, log_op (Rename src dst) s)
      | _ \<Rightarrow> (Inl OSError, log_op (Rename src dst) s))"

subsection \<open>The script\<close>

text \<open>\<open>die(msg)\<close>: print to stderr, \<open>sys.exit(1)\<close>.\<close>

definition die :: "string \<Rightarrow> state \<Rightarrow> outcome \<times> state" where
  "die msg s = (SysExit 1, s\<lparr>err := err s @ [msg]\<rparr>)"

text \<open>
  Lines 26 to 40. \<open>sqlite3.connect(tmp_out)\<close> creates the file when it is missing;
  \<open>con.backup(bck)\<close> writes the copy into it, and on failure leaves what it had written.
  On the side of the source, the engine works on the database's own files when the
  connection is opened, when the checkpoint runs, and when \<open>con.close()\<close> runs in the outer
  \<open>finally\<close>, on every path out of the \<open>try\<close> block. A checkpoint that raises is swallowed by
  \<open>except Exception: pass\<close> and is taken to have written nothing.
\<close>

definition engine :: "(source_db \<Rightarrow> source_db) \<Rightarrow> state \<Rightarrow> state" where
  "engine f s = s\<lparr>source := f (source s)\<rparr>"

definition sqlite_connect_tmp :: "world \<Rightarrow> path \<Rightarrow> state \<Rightarrow> (exn + unit) \<times> state" where
  "sqlite_connect_tmp w p s =
     (case lookup s p of
        Some Dir \<Rightarrow> (Inl SqliteError, log_op (OpenCreate p) s)
      | Some (File b) \<Rightarrow>
          if connect_tmp_ok w then (Inr (), log_op (OpenCreate p) s)
          else (Inl SqliteError, log_op (OpenCreate p) s)
      | None \<Rightarrow>
          if connect_tmp_ok w then (Inr (), put p (File []) (OpenCreate p) s)
          else (Inl SqliteError, log_op (OpenCreate p) s))"

definition con_backup :: "world \<Rightarrow> path \<Rightarrow> state \<Rightarrow> (exn + unit) \<times> state" where
  "con_backup w p s =
     (case backup_result w of
        CopyOk snap \<Rightarrow> (Inr (), put p (File snap) (WriteFile p) s)
      | CopyFailed partial \<Rightarrow> (Inl SqliteError, put p (File partial) (WriteFile p) s))"

definition snapshot :: "world \<Rightarrow> path \<Rightarrow> path \<Rightarrow> state \<Rightarrow> (exn + unit) \<times> state" where
  "snapshot w db_path tmp_out s =
     (if \<not> connect_ok w \<or> lookup s db_path = Some Dir then (Inl SqliteError, s)
      else
        let s0 = engine (opened w) s
        in if \<not> busy_timeout_ok w then (Inl SqliteError, engine (closed w) s0)
           else
             let s1 = (if checkpoint_ok w then engine (checkpointed w) s0 else s0)
             in case sqlite_connect_tmp w tmp_out s1 of
                  (Inl e, s2) \<Rightarrow> (Inl e, engine (closed w) s2)
                | (Inr u, s2) \<Rightarrow>
                    (case con_backup w tmp_out s2 of
                       (r, s3) \<Rightarrow> (r, engine (closed w) s3)))"

text \<open>
  Lines 45 and 46. The input is opened first; \<open>gzip.open(final_gz, 'wb')\<close> creates or
  truncates the output; \<open>shutil.copyfileobj\<close> writes the compressed bytes, and when it
  fails the \<open>with\<close> block closes both files and the exception propagates.
\<close>

definition compress :: "world \<Rightarrow> path \<Rightarrow> path \<Rightarrow> state \<Rightarrow> (exn + unit) \<times> state" where
  "compress w final_out final_gz s =
     (case lookup s final_out of
        Some (File b) \<Rightarrow>
          if \<not> open_in_ok w then (Inl OSError, s)
          else if \<not> gzip_open_ok w \<or> lookup s final_gz = Some Dir
          then (Inl OSError, log_op (OpenCreate final_gz) s)
          else
            let s1 = put final_gz (File []) (OpenCreate final_gz) s
            in (case gzip_write w of
                  WriteOk \<Rightarrow> (Inr (), put final_gz (File (gzip w b)) (WriteFile final_gz) s1)
                | WriteFailed partial \<Rightarrow>
                    (Inl OSError, put final_gz (File partial) (WriteFile final_gz) s1))
      | _ \<Rightarrow> (Inl OSError, s))"

text \<open>Lines 52 to 60: the rotation.\<close>

definition is_backup :: "string \<Rightarrow> bool" where
  "is_backup f = (prefix ''edrmount.db.'' f \<and> suffix ''.sqlite.gz'' f)"

text \<open>\<open>sorted(xs, reverse=True)\<close> on strings\<close>

definition sorted_reverse :: "string list \<Rightarrow> string list" where
  "sorted_reverse xs = rev (sort xs)"

text \<open>\<open>xs[k:]\<close>: a negative \<open>k\<close> counts from the end, and is clipped at the start.\<close>

definition slice_from :: "int \<Rightarrow> 'a list \<Rightarrow> 'a list" where
  "slice_from k xs =
     (if 0 \<le> k then drop (nat k) xs
      else drop (nat (max 0 (int (length xs) + k))) xs)"

text \<open>
  The loop of lines 56 to 60: one \<open>os.remove\<close> per name, in order; \<open>except Exception: pass\<close>
  drops the error of a removal that fails, and the loop goes on.
\<close>

fun remove_each :: "world \<Rightarrow> path \<Rightarrow> string list \<Rightarrow> state \<Rightarrow> state" where
  "remove_each w out_dir [] s = s"
| "remove_each w out_dir (f # fs) s =
     remove_each w out_dir fs (snd (os_remove w (path_join out_dir f) s))"

definition backup_files :: "string list \<Rightarrow> string list" where
  "backup_files names = sorted_reverse (filter is_backup names)"

definition rotate :: "world \<Rightarrow> path \<Rightarrow> int \<Rightarrow> state \<Rightarrow> outcome \<times> state" where
  "rotate w out_dir keep s =
     (case listdir w out_dir s of
        Inl e \<Rightarrow> (Uncaught e, s)
      | Inr names \<Rightarrow>
          (Returned, remove_each w out_dir (slice_from keep (backup_files names)) s))"

definition default_db :: path where
  "default_db = ''/home/pulgarcito/.openclaw/workspace/edrmount-data/config/edrmount.db''"

definition default_dir :: path where
  "default_dir = ''/home/pulgarcito/.openclaw/workspace/edrmount-backups''"

definition db_path_of :: "world \<Rightarrow> path" where
  "db_path_of w = environ_get w ''EDRMOUNT_DB'' default_db"

definition out_dir_of :: "world \<Rightarrow> path" where
  "out_dir_of w = environ_get w ''EDRMOUNT_BACKUP_DIR'' default_dir"

text \<open>
  Line 13: without the variable, \<open>int('30')\<close> is 30; with it, the outcome of \<open>int\<close> on its
  value.
\<close>

definition keep_of :: "world \<Rightarrow> int option" where
  "keep_of w =
     (case environ w ''EDRMOUNT_BACKUP_KEEP'' of None \<Rightarrow> Some 30 | Some v \<Rightarrow> keep_int w)"

definition tmp_name :: "world \<Rightarrow> string" where
  "tmp_name w = ''edrmount.db.'' @ strftime (now w) @ ''.tmp''"

definition final_name :: "world \<Rightarrow> string" where
  "final_name w = ''edrmount.db.'' @ strftime (now w) @ ''.sqlite''"

definition gz_name :: "world \<Rightarrow> string" where
  "gz_name w = final_name w @ ''.gz''"

definition tmp_out_of :: "world \<Rightarrow> path" where
  "tmp_out_of w = path_join (out_dir_of w) (tmp_name w)"

definition final_out_of :: "world \<Rightarrow> path" where
  "final_out_of w = path_join (out_dir_of w) (final_name w)"

definition final_gz_of :: "world \<Rightarrow> path" where
  "final_gz_of w = final_out_of w @ ''.gz''"

text \<open>Lines 42 to 60, once the snapshot is in the temporary file.\<close>

definition install :: "world \<Rightarrow> int \<Rightarrow> state \<Rightarrow> outcome \<times> state" where
  "install w keep s2 =
     (case os_replace w (tmp_out_of w) (final_out_of w) s2 of
        (Inl e, s3) \<Rightarrow> (Uncaught e, s3)
      | (Inr u, s3) \<Rightarrow>
          (case compress w (final_out_of w) (final_gz_of w) s3 of
             (Inl e, s4) \<Rightarrow> (Uncaught e, s4)
           | (Inr u, s4) \<Rightarrow>
               (case os_remove w (final_out_of w) s4 of
                  (Inl e, s5) \<Rightarrow> (Uncaught e, s5)
                | (Inr u, s5) \<Rightarrow>
                    rotate w (out_dir_of w) keep
                      (s5\<lparr>out := out s5 @ [''OK: '' @ final_gz_of w]\<rparr>))))"

definition main :: "world \<Rightarrow> state \<Rightarrow> outcome \<times> state" where
  "main w s =
     (case keep_of w of
        None \<Rightarrow> (Uncaught ValueError, s)
      | Some keep \<Rightarrow>
          if \<not> path_exists s (db_path_of w) then die (''DB not found: '' @ db_path_of w) s
          else
            (case makedirs w (out_dir_of w) s of
               (Inl e, s1) \<Rightarrow> (Uncaught e, s1)
             | (Inr u, s1) \<Rightarrow>
                 (case snapshot w (db_path_of w) (tmp_out_of w) s1 of
                    (Inl e, s2) \<Rightarrow> (Uncaught e, s2)
                  | (Inr u, s2) \<Rightarrow> install w keep s2)))"

text \<open>
  The process: an uncaught exception makes the interpreter print a traceback on stderr
  and exit with status 1.
\<close>

definition traceback :: "exn \<Rightarrow> string" where
  "traceback e = ''Traceback (most recent call last):''"

definition run :: "world \<Rightarrow> state \<Rightarrow> nat \<times> state" where
  "run w s =
     (case main w s of
        (Uncaught e, s') \<Rightarrow> (1, s'\<lparr>err := err s' @ [traceback e]\<rparr>)
      | (r, s') \<Rightarrow> (exit_code r, s'))"

section \<open>Vocabulary of the properties\<close>

text \<open>
  The definitions of this section are not part of the script. They name what the
  properties below talk about: the footprint of a step, how far a run gets, the list
  \<open>files\<close> of line 52 and its slice \<open>files[keep:]\<close> in terms of the starting state, and a
  few concrete worlds and stores on which the properties are exercised.
\<close>

definition join_prefix :: "path \<Rightarrow> path" where
  "join_prefix a = (if a = [] \<or> suffix ''/'' a then a else a @ ''/'')"

definition within :: "path set \<Rightarrow> state \<Rightarrow> state \<Rightarrow> bool" where
  "within P s s' =
     ((\<forall>p. p \<notin> P \<longrightarrow> lookup s' p = lookup s p) \<and>
      (\<exists>ops. trace s' = trace s @ ops \<and> (\<forall>op \<in> set ops. touches op \<subseteq> P)))"

definition new_ops :: "state \<Rightarrow> state \<Rightarrow> fs_op list" where
  "new_ops s s' = drop (length (trace s)) (trace s')"

definition backup_paths :: "path \<Rightarrow> path set" where
  "backup_paths d = path_join d ` {f. is_backup f}"

definition is_copy_ok :: "copy_result \<Rightarrow> bool" where
  "is_copy_ok r = (case r of CopyOk snap \<Rightarrow> True | CopyFailed partial \<Rightarrow> False)"

definition copy_fails :: "world \<Rightarrow> bool" where
  "copy_fails w =
     (\<not> connect_ok w \<or> \<not> busy_timeout_ok w \<or> \<not> connect_tmp_ok w \<or> \<not> is_copy_ok (backup_result w))"

definition snapshot_taken :: "world \<Rightarrow> state \<Rightarrow> bool" where
  "snapshot_taken w s =
     (keep_of w \<noteq> None \<and> path_exists s (db_path_of w) \<and> out_dir_of w \<noteq> [] \<and>
      (case lookup s (out_dir_of w) of
         None \<Rightarrow> \<not> makedirs_denied w
       | Some Dir \<Rightarrow> True
       | Some (File b) \<Rightarrow> False) \<and>
      connect_ok w \<and> lookup s (db_path_of w) \<noteq> Some Dir \<and> busy_timeout_ok w \<and>
      lookup s (tmp_out_of w) \<noteq> Some Dir \<and> connect_tmp_ok w \<and> is_copy_ok (backup_result w))"

definition gzip_opened :: "world \<Rightarrow> state \<Rightarrow> bool" where
  "gzip_opened w s =
     (snapshot_taken w s \<and> replace_ok w \<and> lookup s (final_out_of w) \<noteq> Some Dir \<and>
      open_in_ok w \<and> gzip_open_ok w \<and> lookup s (final_gz_of w) \<noteq> Some Dir)"

definition steps_succeed :: "world \<Rightarrow> state \<Rightarrow> bool" where
  "steps_succeed w s =
     (gzip_opened w s \<and> gzip_write w = WriteOk \<and> \<not> remove_denied w (final_out_of w) \<and>
      \<not> listdir_denied w)"

definition files_at_rotation :: "world \<Rightarrow> state \<Rightarrow> string list" where
  "files_at_rotation w s = backup_files (List.insert (gz_name w) (children (out_dir_of w) s))"

definition victims :: "world \<Rightarrow> int \<Rightarrow> state \<Rightarrow> string list" where
  "victims w keep s = slice_from keep (files_at_rotation w s)"

definition staged :: "world \<Rightarrow> bytes \<Rightarrow> state \<Rightarrow> path \<Rightarrow> entry option" where
  "staged w snap s p =
     (if p = final_gz_of w then Some (File (gzip w snap))
      else if p = final_out_of w \<or> p = tmp_out_of w then None
      else if p = out_dir_of w then Some Dir
      else lookup s p)"

definition no_dir_made :: "path \<Rightarrow> state \<Rightarrow> state \<Rightarrow> bool" where
  "no_dir_made d s s' = (\<forall>p. p \<noteq> d \<longrightarrow> lookup s' p = Some Dir \<longrightarrow> lookup s p = Some Dir)"

definition source_files :: "world \<Rightarrow> path list" where
  "source_files w = [db_path_of w, db_path_of w @ ''-wal'', db_path_of w @ ''-shm'']"

definition calls_succeed :: "world \<Rightarrow> bool" where
  "calls_succeed w =
     (\<not> makedirs_denied w \<and> connect_ok w \<and> busy_timeout_ok w \<and> connect_tmp_ok w \<and>
      is_copy_ok (backup_result w) \<and> replace_ok w \<and> open_in_ok w \<and> gzip_open_ok w \<and>
      gzip_write w = WriteOk \<and> \<not> remove_denied w (final_out_of w) \<and> \<not> listdir_denied w)"

text \<open>
  An example world holds a value of \<open>EDRMOUNT_BACKUP_KEEP\<close> and what \<open>int\<close> returns on it.
  Its engine merges the write-ahead log into the main file at the checkpoint and removes
  the \<open>-wal\<close> and \<open>-shm\<close> files when the connection is closed.
\<close>

definition example_world :: "string \<Rightarrow> int option \<Rightarrow> world" where
  "example_world v r =
     \<lparr>environ = [''EDRMOUNT_DB'' \<mapsto> ''d'', ''EDRMOUNT_BACKUP_DIR'' \<mapsto> ''b'',
                 ''EDRMOUNT_BACKUP_KEEP'' \<mapsto> v],
      keep_int = r,
      now = \<lparr>year = 2024, month = 1, day = 2, hour = 3, minute = 4, second = 5\<rparr>,
      makedirs_denied = False, connect_ok = True, opened = (\<lambda>c. c),
      busy_timeout_ok = True, checkpoint_ok = True,
      checkpointed =
        (\<lambda>c. c\<lparr>main_file := main_file c @ (case wal_file c of None \<Rightarrow> [] | Some l \<Rightarrow> l),
               wal_file := map_option (\<lambda>l. []) (wal_file c)\<rparr>),
      closed = (\<lambda>c. c\<lparr>wal_file := None, shm_file := None\<rparr>),
      connect_tmp_ok = True, backup_result = CopyOk ''S'', replace_ok = True, open_in_ok = True,
      gzip_open_ok = True, gzip_write = WriteOk, gzip = (\<lambda>b. ''G'' @ b),
      remove_denied = (\<lambda>p. False), listdir_denied = False\<rparr>"

definition example_source :: source_db where
  "example_source = \<lparr>main_file = ''D'', wal_file = Some ''W'', shm_file = Some ''M''\<rparr>"

definition example_state :: "store \<Rightarrow> state" where
  "example_state st = \<lparr>store = st, source = example_source, out = [], err = [], trace = []\<rparr>"

definition old_backups :: store where
  "old_backups =
     [(''d'', File ''D''), (''b'', Dir),
      (''b/edrmount.db.1.sqlite.gz'', File ''a''), (''b/edrmount.db.2.sqlite.gz'', File ''b'')]"

definition same_second_store :: store where
  "same_second_store =
     [(''d'', File ''D''), (''b'', Dir),
      (''b/edrmount.db.20240102-030405.sqlite.gz'', File ''old'')]"

definition stale_store :: store where
  "stale_store =
     [(''d'', File ''D''), (''b'', Dir),
      (''b/edrmount.db.20230101-000000.tmp'', File ''t''),
      (''b/edrmount.db.20240102-030405.sqlite'', File ''u'')]"


section \<open>Auxiliary facts\<close>

subsection \<open>Names and paths\<close>

lemma digit_char_code: "of_char (digit_char n) = (48 + n mod 10 :: nat)"
proof -
  have "(48 + n mod 10) mod 256 = 48 + n mod 10" by simp
  then show ?thesis by (simp add: digit_char_def)
qed

lemma digit_char_no_slash: "digit_char n \<noteq> CHR ''/''"
proof
  assume "digit_char n = CHR ''/''"
  then have "(of_char (digit_char n) :: nat) = of_char CHR ''/''" by simp
  then show False by (simp add: digit_char_code)
qed

lemma decimal_no_slash: "CHR ''/'' \<notin> set (decimal n)"
proof (induction n rule: decimal.induct)
  case (1 n)
  show ?case
  proof (cases "n < 10")
    case True
    then show ?thesis using digit_char_no_slash [of n] by (simp add: decimal.simps [of n])
  next
    case False
    then show ?thesis
      using 1 digit_char_no_slash [of n] by (simp add: decimal.simps [of n])
  qed
qed

lemma zero_pad_no_slash: "CHR ''/'' \<notin> set s \<Longrightarrow> CHR ''/'' \<notin> set (zero_pad k s)"
  by (simp add: zero_pad_def)

lemma strftime_no_slash: "CHR ''/'' \<notin> set (strftime t)"
  by (simp add: strftime_def zero_pad_no_slash decimal_no_slash)

lemma tmp_name_no_slash: "CHR ''/'' \<notin> set (tmp_name w)"
  by (simp add: tmp_name_def strftime_no_slash)

lemma final_name_no_slash: "CHR ''/'' \<notin> set (final_name w)"
  by (simp add: final_name_def strftime_no_slash)

lemma gz_name_no_slash: "CHR ''/'' \<notin> set (gz_name w)"
  by (simp add: gz_name_def final_name_no_slash)

lemma gz_name_is_backup: "is_backup (gz_name w)"
  by (simp add: is_backup_def gz_name_def final_name_def suffix_def)

lemma is_backup_last: "is_backup f \<Longrightarrow> f \<noteq> [] \<and> last f = CHR ''z'' \<and> hd f = CHR ''e''"
proof -
  assume b: "is_backup f"
  from b obtain zs where p: "f = ''edrmount.db.'' @ zs" by (auto simp: is_backup_def prefix_def)
  from b obtain ys where q: "f = ys @ ''.sqlite.gz''" by (auto simp: is_backup_def suffix_def)
  have "hd f = CHR ''e''" by (subst p) simp
  moreover have "last f = CHR ''z''" by (subst q) simp
  moreover have "f \<noteq> []" by (subst p) simp
  ultimately show ?thesis by simp
qed

lemma tmp_name_not_backup: "\<not> is_backup (tmp_name w)"
  using is_backup_last [of "tmp_name w"] by (auto simp: tmp_name_def)

lemma final_name_not_backup: "\<not> is_backup (final_name w)"
  using is_backup_last [of "final_name w"] by (auto simp: final_name_def)

lemma tmp_name_neq_final_name: "tmp_name w \<noteq> final_name w"
  by (simp add: tmp_name_def final_name_def)

text \<open>Joining a directory and a name that does not start with a slash.\<close>

lemma path_join_rel: "\<not> prefix ''/'' b \<Longrightarrow> path_join a b = join_prefix a @ b"
  by (simp add: path_join_def join_prefix_def)

lemma no_slash_rel: "CHR ''/'' \<notin> set b \<Longrightarrow> \<not> prefix ''/'' b"
  by (auto simp: prefix_def)

lemma is_backup_rel: "is_backup f \<Longrightarrow> \<not> prefix ''/'' f"
  by (auto simp: is_backup_def prefix_def)

lemma join_prefix_dir: "d \<noteq> [] \<Longrightarrow> join_prefix d = dir_prefix d"
  by (simp add: join_prefix_def dir_prefix_def)

lemma tmp_out_eq: "tmp_out_of w = join_prefix (out_dir_of w) @ tmp_name w"
  by (simp add: tmp_out_of_def path_join_rel no_slash_rel tmp_name_no_slash)

lemma final_out_eq: "final_out_of w = join_prefix (out_dir_of w) @ final_name w"
  by (simp add: final_out_of_def path_join_rel no_slash_rel final_name_no_slash)

lemma final_gz_eq: "final_gz_of w = join_prefix (out_dir_of w) @ gz_name w"
  by (simp add: final_gz_of_def final_out_eq gz_name_def)

lemma final_gz_join: "final_gz_of w = path_join (out_dir_of w) (gz_name w)"
  by (simp add: final_gz_eq path_join_rel no_slash_rel gz_name_no_slash)

lemma join_prefix_neq: "b \<noteq> [] \<Longrightarrow> join_prefix a @ b \<noteq> a"
  by (auto simp: join_prefix_def)

lemma paths_distinct:
  "tmp_out_of w \<noteq> final_out_of w" "tmp_out_of w \<noteq> final_gz_of w" "final_out_of w \<noteq> final_gz_of w"
  "tmp_out_of w \<noteq> out_dir_of w" "final_out_of w \<noteq> out_dir_of w" "final_gz_of w \<noteq> out_dir_of w"
  by (simp_all add: tmp_out_eq final_out_eq final_gz_eq join_prefix_neq
        tmp_name_def final_name_def gz_name_def)

lemma backup_path_neq:
  assumes "is_backup f"
  shows "path_join d f \<noteq> tmp_out_of w" "path_join d f \<noteq> final_out_of w"
proof -
  have l: "last (path_join d f) = CHR ''z''"
    using assms is_backup_last [of f] by (auto simp: path_join_def)
  have "last (tmp_out_of w) = CHR ''p''" by (simp add: tmp_out_eq tmp_name_def)
  with l show "path_join d f \<noteq> tmp_out_of w" by auto
  have "last (final_out_of w) = CHR ''e''" by (simp add: final_out_eq final_name_def)
  with l show "path_join d f \<noteq> final_out_of w" by auto
qed

lemma backup_path_neq_dir: "is_backup f \<Longrightarrow> path_join d f \<noteq> d"
  using is_backup_last [of f] by (simp add: path_join_rel is_backup_rel join_prefix_neq)

lemma path_join_inj:
  "\<not> prefix ''/'' f \<Longrightarrow> \<not> prefix ''/'' g \<Longrightarrow> path_join d f = path_join d g \<longleftrightarrow> f = g"
  by (simp add: path_join_rel)


lemma lookup_put [simp]: "lookup (put p e op s) = (lookup s)(p \<mapsto> e)"
  by (rule ext) (simp add: lookup_def put_def update_conv')

lemma trace_put [simp]: "trace (put p e op s) = trace s @ [op]"
  by (simp add: put_def)

lemma out_put [simp]: "out (put p e op s) = out s" and err_put [simp]: "err (put p e op s) = err s"
  by (simp_all add: put_def)

lemma lookup_engine [simp]: "lookup (engine f s) = lookup s"
  by (rule ext) (simp add: lookup_def engine_def)

lemma store_engine [simp]: "store (engine f s) = store s"
  and trace_engine [simp]: "trace (engine f s) = trace s"
  and out_engine [simp]: "out (engine f s) = out s"
  and err_engine [simp]: "err (engine f s) = err s"
  by (simp_all add: engine_def)

lemma lookup_log_op [simp]: "lookup (log_op op s) = lookup s"
  by (rule ext) (simp add: lookup_def log_op_def)

lemma trace_log_op [simp]: "trace (log_op op s) = trace s @ [op]"
  by (simp add: log_op_def)

lemma out_log_op [simp]: "out (log_op op s) = out s" and err_log_op [simp]: "err (log_op op s) = err s"
  by (simp_all add: log_op_def)

lemma lookup_store_update [simp]:
  "lookup (s\<lparr>store := st, trace := tr\<rparr>) = map_of st"
  by (rule ext) (simp add: lookup_def)

lemma lookup_out_update [simp]: "lookup (s\<lparr>out := x\<rparr>) = lookup s"
  by (rule ext) (simp add: lookup_def)

lemma lookup_err_update [simp]: "lookup (s\<lparr>err := x\<rparr>) = lookup s"
  by (rule ext) (simp add: lookup_def)

lemma map_of_store: "map_of (store s) = lookup s"
  by (rule ext) (simp add: lookup_def)

subsection \<open>Footprints\<close>

lemma within_refl: "within P s s"
  by (simp add: within_def)

lemma within_mono: "within P s s' \<Longrightarrow> P \<subseteq> Q \<Longrightarrow> within Q s s'"
  unfolding within_def by blast

lemma within_trans: "within P s s' \<Longrightarrow> within Q s' s'' \<Longrightarrow> within (P \<union> Q) s s''"
proof -
  assume a: "within P s s'" and b: "within Q s' s''"
  from a obtain ops1 where o1: "trace s' = trace s @ ops1" "\<forall>op \<in> set ops1. touches op \<subseteq> P"
    unfolding within_def by blast
  from b obtain ops2 where o2: "trace s'' = trace s' @ ops2" "\<forall>op \<in> set ops2. touches op \<subseteq> Q"
    unfolding within_def by blast
  have "trace s'' = trace s @ (ops1 @ ops2)" using o1 o2 by simp
  moreover have "\<forall>op \<in> set (ops1 @ ops2). touches op \<subseteq> P \<union> Q" using o1 o2 by auto
  moreover have "\<forall>p. p \<notin> P \<union> Q \<longrightarrow> lookup s'' p = lookup s p"
    using a b unfolding within_def by simp
  ultimately show ?thesis unfolding within_def by blast
qed

lemma within_trans': "within P s s' \<Longrightarrow> within Q s' s'' \<Longrightarrow> P \<union> Q \<subseteq> R \<Longrightarrow> within R s s''"
  using within_trans within_mono by blast

lemma within_new_ops: "within P s s' \<Longrightarrow> op \<in> set (new_ops s s') \<Longrightarrow> touches op \<subseteq> P"
  unfolding within_def new_ops_def by auto

lemma within_lookup: "within P s s' \<Longrightarrow> p \<notin> P \<Longrightarrow> lookup s' p = lookup s p"
  unfolding within_def by simp

lemma within_out: "within P s s' \<Longrightarrow> within P s (s'\<lparr>out := x\<rparr>)"
  unfolding within_def by simp

lemma within_err: "within P s s' \<Longrightarrow> within P s (s'\<lparr>err := x\<rparr>)"
  unfolding within_def by simp

lemma within_engine [simp]: "within P s (engine f s') = within P s s'"
  "within P (engine f s) s' = within P s s'"
  by (simp_all add: within_def)

lemma sqlite_connect_tmp_engine [simp]:
  "sqlite_connect_tmp w p (engine f s) =
     (fst (sqlite_connect_tmp w p s), engine f (snd (sqlite_connect_tmp w p s)))"
  by (auto simp: sqlite_connect_tmp_def engine_def put_def log_op_def lookup_def
      split: option.splits entry.splits)

lemma con_backup_engine [simp]:
  "con_backup w p (engine f s) = (fst (con_backup w p s), engine f (snd (con_backup w p s)))"
  by (auto simp: con_backup_def engine_def put_def split: copy_result.splits)

lemma makedirs_within: "within {d} s (snd (makedirs w d s))"
  by (auto simp: within_def makedirs_def split: option.splits entry.splits)

lemma sqlite_connect_tmp_within: "within {p} s (snd (sqlite_connect_tmp w p s))"
  by (auto simp: within_def sqlite_connect_tmp_def split: option.splits entry.splits)

lemma con_backup_within: "within {p} s (snd (con_backup w p s))"
  by (auto simp: within_def con_backup_def split: copy_result.splits)

lemma snapshot_within: "within {p} s (snd (snapshot w db p s))"
proof -
  have "within ({p} \<union> {p}) s (snd (con_backup w p (snd (sqlite_connect_tmp w p s))))"
    by (rule within_trans [OF sqlite_connect_tmp_within con_backup_within])
  then show ?thesis
    using sqlite_connect_tmp_within [of p s w]
    by (auto simp: snapshot_def Let_def within_refl split_beta split: sum.splits)
qed

lemma os_replace_within: "within {src, dst} s (snd (os_replace w src dst s))"
  by (auto simp: within_def os_replace_def update_conv' delete_conv' map_of_store
      split: option.splits entry.splits)

lemma compress_within: "within {gz} s (snd (compress w fo gz s))"
  by (auto simp: within_def compress_def Let_def split: option.splits entry.splits write_result.splits)

lemma os_remove_within: "within {p} s (snd (os_remove w p s))"
  by (auto simp: within_def os_remove_def delete_conv' map_of_store
      split: option.splits entry.splits)

lemma remove_each_within: "within (path_join d ` set fs) s (remove_each w d fs s)"
proof (induction fs arbitrary: s)
  case Nil
  show ?case by (simp add: within_refl)
next
  case (Cons f fs)
  show ?case
    using within_trans [OF os_remove_within [of "path_join d f" s w] Cons.IH [of "snd (os_remove w (path_join d f) s)"]]
    by simp
qed

lemma set_backup_files: "set (backup_files names) = {f \<in> set names. is_backup f}"
  by (auto simp: backup_files_def sorted_reverse_def)

lemma set_slice_from: "set (slice_from k xs) \<subseteq> set xs"
  by (auto simp: slice_from_def dest: in_set_dropD)

lemma rotate_within: "within (backup_paths d) s (snd (rotate w d keep s))"
proof (cases "listdir w d s")
  case (Inl e)
  then show ?thesis by (simp add: rotate_def within_refl)
next
  case (Inr names)
  have "path_join d ` set (slice_from keep (backup_files names)) \<subseteq> backup_paths d"
    using set_slice_from [of keep "backup_files names"]
    by (auto simp: backup_paths_def set_backup_files)
  then show ?thesis
    using Inr remove_each_within [of d "slice_from keep (backup_files names)" s w]
    by (simp add: rotate_def within_mono)
qed


lemma install_within:
  "within ({tmp_out_of w, final_out_of w, final_gz_of w} \<union> backup_paths (out_dir_of w)) s
     (snd (install w keep s))"
proof -
  let ?R = "{tmp_out_of w, final_out_of w, final_gz_of w} \<union> backup_paths (out_dir_of w)"
  let ?s3 = "snd (os_replace w (tmp_out_of w) (final_out_of w) s)"
  let ?s4 = "snd (compress w (final_out_of w) (final_gz_of w) ?s3)"
  let ?s5 = "snd (os_remove w (final_out_of w) ?s4)"
  let ?s5' = "?s5\<lparr>out := out ?s5 @ [''OK: '' @ final_gz_of w]\<rparr>"
  let ?s6 = "snd (rotate w (out_dir_of w) keep ?s5')"
  have w3: "within ?R s ?s3"
    by (rule within_mono [OF os_replace_within]) simp
  have w4: "within ?R s ?s4"
    by (rule within_trans' [OF w3 compress_within]) simp
  have w5: "within ?R s ?s5"
    by (rule within_trans' [OF w4 os_remove_within]) simp
  have w5': "within ?R s ?s5'"
    by (rule within_out [OF w5])
  have w6: "within ?R s ?s6"
    by (rule within_trans' [OF w5' rotate_within]) simp
  show ?thesis
    using w3 w4 w5 w6 by (auto simp: install_def split: prod.splits sum.splits)
qed

lemma main_within:
  "within ({out_dir_of w, tmp_out_of w, final_out_of w, final_gz_of w} \<union> backup_paths (out_dir_of w)) s
     (snd (main w s))"
proof -
  let ?R = "{out_dir_of w, tmp_out_of w, final_out_of w, final_gz_of w} \<union> backup_paths (out_dir_of w)"
  let ?s1 = "snd (makedirs w (out_dir_of w) s)"
  let ?s2 = "snd (snapshot w (db_path_of w) (tmp_out_of w) ?s1)"
  have w0: "within ?R s (s\<lparr>err := x\<rparr>)" for x
    by (rule within_err [OF within_refl])
  have w1: "within ?R s ?s1"
    by (rule within_mono [OF makedirs_within]) simp
  have w2: "within ?R s ?s2"
    by (rule within_trans' [OF w1 snapshot_within]) simp
  have w3: "within ?R s (snd (install w keep ?s2))" for keep
    by (rule within_trans' [OF w2 install_within]) auto
  show ?thesis
    using w0 w1 w2 w3
    by (auto simp: main_def die_def within_refl split: prod.splits sum.splits option.splits)
qed

lemma snapshot_fails:
  "copy_fails w \<Longrightarrow> \<exists>e. fst (snapshot w db p s) = Inl e"
  by (auto simp: copy_fails_def is_copy_ok_def snapshot_def sqlite_connect_tmp_def con_backup_def Let_def
      split: option.splits entry.splits copy_result.splits)

lemma main_copy_fails:
  assumes "copy_fails w"
  shows "within {out_dir_of w, tmp_out_of w} s (snd (main w s))" "fst (main w s) \<noteq> Returned"
proof -
  let ?R = "{out_dir_of w, tmp_out_of w}"
  let ?s1 = "snd (makedirs w (out_dir_of w) s)"
  let ?s2 = "snd (snapshot w (db_path_of w) (tmp_out_of w) ?s1)"
  have w0: "within ?R s (s\<lparr>err := x\<rparr>)" for x
    by (rule within_err [OF within_refl])
  have w1: "within ?R s ?s1"
    by (rule within_mono [OF makedirs_within]) simp
  have w2: "within ?R s ?s2"
    by (rule within_trans' [OF w1 snapshot_within]) simp
  have f: "\<exists>e. fst (snapshot w (db_path_of w) (tmp_out_of w) ?s1) = Inl e"
    by (rule snapshot_fails [OF assms])
  show "within ?R s (snd (main w s))"
    using w0 w1 w2 f
    by (auto simp: main_def die_def within_refl split: prod.splits sum.splits option.splits)
  show "fst (main w s) \<noteq> Returned"
    using f
    by (auto simp: main_def die_def split: prod.splits sum.splits option.splits)
qed


subsection \<open>The run, step by step\<close>

lemma main_snapshot_taken:
  assumes k: "keep_of w = Some keep" and t: "snapshot_taken w s" and b: "backup_result w = CopyOk snap"
  shows "\<exists>s2. main w s = install w keep s2 \<and>
           (\<forall>p. lookup s2 p =
                 (if p = tmp_out_of w then Some (File snap)
                  else if p = out_dir_of w then Some Dir else lookup s p)) \<and>
           trace s2 = trace s @ [MkDir (out_dir_of w), OpenCreate (tmp_out_of w), WriteFile (tmp_out_of w)] \<and>
           out s2 = out s \<and> err s2 = err s"
proof -
  have ne: "tmp_out_of w \<noteq> out_dir_of w" by (rule paths_distinct)
  from t have e: "path_exists s (db_path_of w)" and d: "out_dir_of w \<noteq> []"
    and c: "connect_ok w" "busy_timeout_ok w" "connect_tmp_ok w"
    and nd: "lookup s (db_path_of w) \<noteq> Some Dir" "lookup s (tmp_out_of w) \<noteq> Some Dir"
    by (simp_all add: snapshot_taken_def)
  from e have ex: "lookup s (db_path_of w) \<noteq> None" by (simp add: path_exists_def)
  consider (absent) "lookup s (out_dir_of w) = None" "\<not> makedirs_denied w"
    | (present) "lookup s (out_dir_of w) = Some Dir"
    using t by (auto simp: snapshot_taken_def split: option.splits entry.splits)
  then show ?thesis
  proof cases
    case absent
    then have dbne: "db_path_of w \<noteq> out_dir_of w" using ex by auto
    show ?thesis
      using absent k e d c nd b ne dbne
      by (cases "lookup s (tmp_out_of w)")
         (auto simp: main_def makedirs_def snapshot_def sqlite_connect_tmp_def con_backup_def Let_def
            split: entry.splits)
  next
    case present
    show ?thesis
      using present k e d c nd b ne
      by (cases "lookup s (tmp_out_of w)")
         (auto simp: main_def makedirs_def snapshot_def sqlite_connect_tmp_def con_backup_def Let_def
            split: entry.splits)
  qed
qed

lemma install_write_failed:
  assumes "lookup s2 (tmp_out_of w) = Some (File snap)" "replace_ok w"
    "lookup s2 (final_out_of w) \<noteq> Some Dir" "open_in_ok w" "gzip_open_ok w"
    "lookup s2 (final_gz_of w) \<noteq> Some Dir" "gzip_write w = WriteFailed partial"
  shows "\<exists>s4. install w keep s2 = (Uncaught OSError, s4) \<and>
           (\<forall>p. lookup s4 p =
                 (if p = final_gz_of w then Some (File partial)
                  else if p = final_out_of w then Some (File snap)
                  else if p = tmp_out_of w then None else lookup s2 p)) \<and>
           trace s4 = trace s2 @ [Rename (tmp_out_of w) (final_out_of w),
                                  OpenCreate (final_gz_of w), WriteFile (final_gz_of w)] \<and>
           out s4 = out s2 \<and> err s4 = err s2"
  using assms paths_distinct [of w]
  by (auto simp: install_def os_replace_def compress_def Let_def update_conv' delete_conv' map_of_store)

lemma install_write_ok:
  assumes "lookup s2 (tmp_out_of w) = Some (File snap)" "replace_ok w"
    "lookup s2 (final_out_of w) \<noteq> Some Dir" "open_in_ok w" "gzip_open_ok w"
    "lookup s2 (final_gz_of w) \<noteq> Some Dir" "gzip_write w = WriteOk"
    "\<not> remove_denied w (final_out_of w)"
  shows "\<exists>s5. install w keep s2 = rotate w (out_dir_of w) keep s5 \<and>
           (\<forall>p. lookup s5 p =
                 (if p = final_gz_of w then Some (File (gzip w snap))
                  else if p = final_out_of w \<or> p = tmp_out_of w then None else lookup s2 p)) \<and>
           trace s5 = trace s2 @ [Rename (tmp_out_of w) (final_out_of w),
                                  OpenCreate (final_gz_of w), WriteFile (final_gz_of w),
                                  Unlink (final_out_of w)] \<and>
           out s5 = out s2 @ [''OK: '' @ final_gz_of w] \<and> err s5 = err s2"
  using assms paths_distinct [of w]
  by (auto simp: install_def os_replace_def compress_def os_remove_def Let_def
        update_conv' delete_conv' map_of_store)

lemma rotate_listed:
  assumes "d \<noteq> []" "lookup s d = Some Dir" "\<not> listdir_denied w"
  shows "rotate w d keep s =
           (Returned, remove_each w d (slice_from keep (backup_files (children d s))) s)"
  using assms by (simp add: rotate_def listdir_def)

subsection \<open>The deletion loop\<close>

lemma lookup_os_remove:
  "lookup (snd (os_remove w q s)) p =
     (if p = q \<and> (\<exists>b. lookup s p = Some (File b)) \<and> \<not> remove_denied w p then None else lookup s p)"
  by (auto simp: os_remove_def delete_conv' map_of_store split: option.splits entry.splits)

lemma trace_os_remove: "trace (snd (os_remove w q s)) = trace s @ [Unlink q]"
  by (auto simp: os_remove_def split: option.splits entry.splits)

lemma out_os_remove: "out (snd (os_remove w q s)) = out s"
  and err_os_remove: "err (snd (os_remove w q s)) = err s"
  by (auto simp: os_remove_def split: option.splits entry.splits)

lemma lookup_remove_each:
  "lookup (remove_each w d fs s) p =
     (if p \<in> path_join d ` set fs \<and> (\<exists>b. lookup s p = Some (File b)) \<and> \<not> remove_denied w p
      then None else lookup s p)"
proof (induction fs arbitrary: s)
  case Nil
  show ?case by simp
next
  case (Cons f fs)
  show ?case
    by (simp add: Cons.IH lookup_os_remove) auto
qed

lemma trace_remove_each:
  "trace (remove_each w d fs s) = trace s @ map (\<lambda>f. Unlink (path_join d f)) fs"
  by (induction fs arbitrary: s) (simp_all add: trace_os_remove)

lemma out_remove_each: "out (remove_each w d fs s) = out s"
  by (induction fs arbitrary: s) (simp_all add: out_os_remove)

lemma err_remove_each: "err (remove_each w d fs s) = err s"
  by (induction fs arbitrary: s) (simp_all add: err_os_remove)

subsection \<open>Directory listings\<close>

lemma child_name_Some:
  "child_name d p = Some n \<longleftrightarrow> p = dir_prefix d @ n \<and> n \<noteq> [] \<and> CHR ''/'' \<notin> set n"
  by (auto simp: child_name_def Let_def prefix_def)

lemma set_children:
  "set (children d s) = {n. n \<noteq> [] \<and> CHR ''/'' \<notin> set n \<and> lookup s (dir_prefix d @ n) \<noteq> None}"
proof -
  have "set (List.map_filter f xs) = {n. \<exists>p \<in> set xs. f p = Some n}" for f :: "path \<Rightarrow> string option" and xs
    by (induction xs) (auto split: option.splits)
  then have "set (children d s) = {n. \<exists>p \<in> fst ` set (store s). child_name d p = Some n}"
    by (simp add: children_def)
  also have "\<dots> = {n. n \<noteq> [] \<and> CHR ''/'' \<notin> set n \<and> dir_prefix d @ n \<in> fst ` set (store s)}"
    by (auto simp: child_name_Some)
  also have "\<dots> = {n. n \<noteq> [] \<and> CHR ''/'' \<notin> set n \<and> lookup s (dir_prefix d @ n) \<noteq> None}"
    by (simp add: lookup_def map_of_eq_None_iff)
  finally show ?thesis .
qed

lemma distinct_children: "distinct (children d s)"
  by (simp add: children_def)


lemma backup_files_cong:
  assumes "distinct xs" "distinct ys" "{f \<in> set xs. is_backup f} = {f \<in> set ys. is_backup f}"
  shows "backup_files xs = backup_files ys"
proof -
  have "sort (filter is_backup xs) = sort (filter is_backup ys)"
    by (rule sorted_distinct_set_unique) (use assms in auto)
  then show ?thesis by (simp add: backup_files_def sorted_reverse_def)
qed

lemma distinct_backup_files: "distinct xs \<Longrightarrow> distinct (backup_files xs)"
  by (simp add: backup_files_def sorted_reverse_def)

lemma sorted_rev_backup_files: "sorted (rev (backup_files xs))"
  by (simp add: backup_files_def sorted_reverse_def)

lemma children_staged:
  assumes d: "out_dir_of w \<noteq> []" and l: "\<forall>p. lookup s5 p = staged w snap s p"
  shows "backup_files (children (out_dir_of w) s5) = files_at_rotation w s"
  unfolding files_at_rotation_def
proof (rule backup_files_cong)
  show "distinct (children (out_dir_of w) s5)" by (rule distinct_children)
  show "distinct (List.insert (gz_name w) (children (out_dir_of w) s))"
    by (simp add: distinct_children)
  have dp: "dir_prefix (out_dir_of w) = join_prefix (out_dir_of w)"
    using d by (simp add: join_prefix_dir)
  have "n \<in> set (children (out_dir_of w) s5) \<longleftrightarrow>
        n = gz_name w \<or> n \<in> set (children (out_dir_of w) s)" if b: "is_backup n" for n
  proof -
    have n1: "n \<noteq> tmp_name w" "n \<noteq> final_name w"
      using b tmp_name_not_backup final_name_not_backup by auto
    have n2: "join_prefix (out_dir_of w) @ n \<noteq> out_dir_of w"
      using b is_backup_last [of n] by (simp add: join_prefix_neq)
    show ?thesis
      using n1 n2 gz_name_no_slash [of w] is_backup_last [OF gz_name_is_backup, of w]
      by (auto simp: set_children l staged_def dp final_gz_eq final_out_eq tmp_out_eq)
  qed
  then show "{f \<in> set (children (out_dir_of w) s5). is_backup f} =
        {f \<in> set (List.insert (gz_name w) (children (out_dir_of w) s)). is_backup f}"
    by auto
qed

lemma main_success:
  assumes k: "keep_of w = Some keep" and st: "steps_succeed w s" and b: "backup_result w = CopyOk snap"
  shows "\<exists>s5. main w s = (Returned, remove_each w (out_dir_of w) (victims w keep s) s5) \<and>
           (\<forall>p. lookup s5 p = staged w snap s p) \<and>
           trace s5 = trace s @
             [MkDir (out_dir_of w), OpenCreate (tmp_out_of w), WriteFile (tmp_out_of w),
              Rename (tmp_out_of w) (final_out_of w), OpenCreate (final_gz_of w),
              WriteFile (final_gz_of w), Unlink (final_out_of w)] \<and>
           out s5 = out s @ [''OK: '' @ final_gz_of w] \<and> err s5 = err s"
proof -
  from st have t: "snapshot_taken w s" and g: "gzip_opened w s"
    by (simp_all add: steps_succeed_def gzip_opened_def)
  from t have d: "out_dir_of w \<noteq> []" by (simp add: snapshot_taken_def)
  from main_snapshot_taken [OF k t b] obtain s2 where
    m2: "main w s = install w keep s2"
    and l2: "\<forall>p. lookup s2 p =
                 (if p = tmp_out_of w then Some (File snap)
                  else if p = out_dir_of w then Some Dir else lookup s p)"
    and t2: "trace s2 = trace s @ [MkDir (out_dir_of w), OpenCreate (tmp_out_of w), WriteFile (tmp_out_of w)]"
    and o2: "out s2 = out s" "err s2 = err s"
    by blast
  have a1: "lookup s2 (tmp_out_of w) = Some (File snap)" by (simp add: l2)
  have a2: "lookup s2 (final_out_of w) \<noteq> Some Dir"
    using g paths_distinct [of w] by (simp add: l2 gzip_opened_def)
  have a3: "lookup s2 (final_gz_of w) \<noteq> Some Dir"
    using g paths_distinct [of w] by (simp add: l2 gzip_opened_def)
  from g st have a4: "replace_ok w" "open_in_ok w" "gzip_open_ok w" "gzip_write w = WriteOk"
    "\<not> remove_denied w (final_out_of w)" "\<not> listdir_denied w"
    by (simp_all add: steps_succeed_def gzip_opened_def)
  from install_write_ok [OF a1 a4(1) a2 a4(2) a4(3) a3 a4(4) a4(5), of keep] obtain s5 where
    m5: "install w keep s2 = rotate w (out_dir_of w) keep s5"
    and l5: "\<forall>p. lookup s5 p =
                 (if p = final_gz_of w then Some (File (gzip w snap))
                  else if p = final_out_of w \<or> p = tmp_out_of w then None else lookup s2 p)"
    and t5: "trace s5 = trace s2 @ [Rename (tmp_out_of w) (final_out_of w),
                                  OpenCreate (final_gz_of w), WriteFile (final_gz_of w),
                                  Unlink (final_out_of w)]"
    and o5: "out s5 = out s2 @ [''OK: '' @ final_gz_of w]" "err s5 = err s2"
    by blast
  have ls: "\<forall>p. lookup s5 p = staged w snap s p"
    using paths_distinct [of w] by (auto simp: l5 l2 staged_def)
  have dd: "lookup s5 (out_dir_of w) = Some Dir"
    using paths_distinct [of w] by (simp add: ls staged_def)
  have "main w s = (Returned, remove_each w (out_dir_of w) (victims w keep s) s5)"
    using rotate_listed [OF d dd a4(6), of keep] children_staged [OF d ls]
    by (simp add: m2 m5 victims_def)
  then show ?thesis
    using ls t5 t2 o5 o2 by auto
qed

lemma makedirs_Inr:
  "fst (makedirs w d s) = Inr u \<Longrightarrow>
     d \<noteq> [] \<and> (case lookup s d of None \<Rightarrow> \<not> makedirs_denied w | Some Dir \<Rightarrow> True | Some (File b) \<Rightarrow> False)"
  by (auto simp: makedirs_def split: option.splits entry.splits if_splits)

lemma snapshot_Inr:
  "fst (snapshot w db p s) = Inr u \<Longrightarrow>
     connect_ok w \<and> lookup s db \<noteq> Some Dir \<and> busy_timeout_ok w \<and> lookup s p \<noteq> Some Dir \<and>
     connect_tmp_ok w \<and> is_copy_ok (backup_result w)"
  by (auto simp: snapshot_def sqlite_connect_tmp_def con_backup_def is_copy_ok_def Let_def
      split: option.splits entry.splits if_splits copy_result.splits)

lemma os_replace_Inr:
  "fst (os_replace w src dst s) = Inr u \<Longrightarrow> replace_ok w \<and> lookup s dst \<noteq> Some Dir"
  by (auto simp: os_replace_def split: option.splits entry.splits if_splits)

lemma compress_Inr:
  "fst (compress w fo gz s) = Inr u \<Longrightarrow>
     open_in_ok w \<and> gzip_open_ok w \<and> lookup s gz \<noteq> Some Dir \<and> gzip_write w = WriteOk"
  by (auto simp: compress_def Let_def split: option.splits entry.splits if_splits write_result.splits)

lemma os_remove_Inr: "fst (os_remove w p s) = Inr u \<Longrightarrow> \<not> remove_denied w p"
  by (auto simp: os_remove_def split: option.splits entry.splits if_splits)

lemma rotate_Returned: "fst (rotate w d keep s) = Returned \<Longrightarrow> \<not> listdir_denied w"
  by (auto simp: rotate_def listdir_def split: sum.splits if_splits)

lemma install_Returned:
  assumes "fst (install w keep s2) = Returned"
  shows "replace_ok w \<and> lookup s2 (final_out_of w) \<noteq> Some Dir \<and> open_in_ok w \<and> gzip_open_ok w \<and>
         lookup s2 (final_gz_of w) \<noteq> Some Dir \<and> gzip_write w = WriteOk \<and>
         \<not> remove_denied w (final_out_of w) \<and> \<not> listdir_denied w"
proof -
  let ?r3 = "os_replace w (tmp_out_of w) (final_out_of w) s2"
  let ?r4 = "compress w (final_out_of w) (final_gz_of w) (snd ?r3)"
  let ?r5 = "os_remove w (final_out_of w) (snd ?r4)"
  let ?s5' = "(snd ?r5)\<lparr>out := out (snd ?r5) @ [''OK: '' @ final_gz_of w]\<rparr>"
  from assms have 3: "fst ?r3 = Inr ()" and 4: "fst ?r4 = Inr ()" and 5: "fst ?r5 = Inr ()"
    and 6: "fst (rotate w (out_dir_of w) keep ?s5') = Returned"
    by (auto simp: install_def split: prod.splits sum.splits)
  have "lookup (snd ?r3) (final_gz_of w) = lookup s2 (final_gz_of w)"
    using within_lookup [OF os_replace_within [of "tmp_out_of w" "final_out_of w" s2 w], of "final_gz_of w"]
      paths_distinct [of w] by auto
  then show ?thesis
    using os_replace_Inr [OF 3] compress_Inr [OF 4] os_remove_Inr [OF 5] rotate_Returned [OF 6]
    by simp
qed

lemma main_Returned:
  assumes "fst (main w s) = Returned"
  shows "steps_succeed w s"
proof -
  let ?r1 = "makedirs w (out_dir_of w) s"
  let ?r2 = "snapshot w (db_path_of w) (tmp_out_of w) (snd ?r1)"
  from assms obtain keep where k: "keep_of w = Some keep" and e: "path_exists s (db_path_of w)"
    and 1: "fst ?r1 = Inr ()" and 2: "fst ?r2 = Inr ()"
    and 3: "fst (install w keep (snd ?r2)) = Returned"
    by (auto simp: main_def die_def split: prod.splits sum.splits option.splits if_splits)
  have w1: "within {out_dir_of w} s (snd ?r1)" by (rule makedirs_within)
  have w2: "within {out_dir_of w, tmp_out_of w} s (snd ?r2)"
    by (rule within_trans' [OF w1 snapshot_within]) simp
  from e have ex: "lookup s (db_path_of w) \<noteq> None" by (simp add: path_exists_def)
  have db: "lookup (snd ?r1) (db_path_of w) = lookup s (db_path_of w)"
    using ex by (auto simp: makedirs_def split: option.splits entry.splits)
  have tmp: "lookup (snd ?r1) (tmp_out_of w) = lookup s (tmp_out_of w)"
    using within_lookup [OF w1, of "tmp_out_of w"] paths_distinct [of w] by simp
  have fo: "lookup (snd ?r2) (final_out_of w) = lookup s (final_out_of w)"
    using within_lookup [OF w2, of "final_out_of w"] paths_distinct [of w] by auto
  have gz: "lookup (snd ?r2) (final_gz_of w) = lookup s (final_gz_of w)"
    using within_lookup [OF w2, of "final_gz_of w"] paths_distinct [of w] by auto
  show ?thesis
    using k e makedirs_Inr [OF 1] snapshot_Inr [OF 2] install_Returned [OF 3] db tmp fo gz
    by (simp add: steps_succeed_def gzip_opened_def snapshot_taken_def)
qed

lemma main_Returned_iff: "fst (main w s) = Returned \<longleftrightarrow> steps_succeed w s"
proof
  assume "fst (main w s) = Returned"
  then show "steps_succeed w s" by (rule main_Returned)
next
  assume st: "steps_succeed w s"
  then obtain keep snap where "keep_of w = Some keep" "backup_result w = CopyOk snap"
    by (auto simp: steps_succeed_def gzip_opened_def snapshot_taken_def is_copy_ok_def
        split: copy_result.splits)
  from main_success [OF this(1) st this(2)] show "fst (main w s) = Returned" by auto
qed


subsection \<open>The example world\<close>

lemma example_env:
  "db_path_of (example_world v r) = ''d''" "out_dir_of (example_world v r) = ''b''"
  "keep_of (example_world v r) = r"
  by (simp_all add: db_path_of_def out_dir_of_def keep_of_def environ_get_def example_world_def)

lemma example_ts: "strftime (now (example_world v r)) = ''20240102-030405''"
  by (simp add: example_world_def strftime_def zero_pad_def decimal.simps digit_char_def char_of_def
        bit_Suc_0_iff)

lemma example_paths:
  "tmp_out_of (example_world v r) = ''b/edrmount.db.20240102-030405.tmp''"
  "final_out_of (example_world v r) = ''b/edrmount.db.20240102-030405.sqlite''"
  "final_gz_of (example_world v r) = ''b/edrmount.db.20240102-030405.sqlite.gz''"
  "gz_name (example_world v r) = ''edrmount.db.20240102-030405.sqlite.gz''"
  by (simp_all add: tmp_out_of_def final_out_of_def final_gz_of_def gz_name_def tmp_name_def
        final_name_def example_env example_ts path_join_def suffix_to_prefix)

lemma example_calls: "calls_succeed (example_world v r)"
  by (simp add: calls_succeed_def example_world_def is_copy_ok_def)

lemma lookup_example [simp]: "lookup (example_state st) = map_of st"
  by (rule ext) (simp add: lookup_def example_state_def)

lemma steps_succeed_calls:
  assumes "calls_succeed w" "keep_of w \<noteq> None" "path_exists s (db_path_of w)"
    "lookup s (db_path_of w) \<noteq> Some Dir" "out_dir_of w \<noteq> []"
    "\<forall>b. lookup s (out_dir_of w) \<noteq> Some (File b)"
    "lookup s (tmp_out_of w) \<noteq> Some Dir" "lookup s (final_out_of w) \<noteq> Some Dir"
    "lookup s (final_gz_of w) \<noteq> Some Dir"
  shows "steps_succeed w s"
  using assms
  by (auto simp: steps_succeed_def gzip_opened_def snapshot_taken_def calls_succeed_def
      split: option.splits entry.splits)

subsection \<open>The run as a whole\<close>

lemma main_write_failed:
  assumes g: "gzip_opened w s" and b: "backup_result w = CopyOk snap"
    and f: "gzip_write w = WriteFailed partial"
  shows "\<exists>s4. main w s = (Uncaught OSError, s4) \<and>
           lookup s4 (final_gz_of w) = Some (File partial) \<and>
           lookup s4 (final_out_of w) = Some (File snap) \<and>
           lookup s4 (tmp_out_of w) = None"
proof -
  from g have t: "snapshot_taken w s" by (simp add: gzip_opened_def)
  then obtain keep where k: "keep_of w = Some keep" by (auto simp: snapshot_taken_def)
  from main_snapshot_taken [OF k t b] obtain s2 where
    m2: "main w s = install w keep s2"
    and l2: "\<forall>p. lookup s2 p =
                 (if p = tmp_out_of w then Some (File snap)
                  else if p = out_dir_of w then Some Dir else lookup s p)"
    by blast
  have a1: "lookup s2 (tmp_out_of w) = Some (File snap)" by (simp add: l2)
  have a2: "lookup s2 (final_out_of w) \<noteq> Some Dir"
    using g paths_distinct [of w] by (simp add: l2 gzip_opened_def)
  have a3: "lookup s2 (final_gz_of w) \<noteq> Some Dir"
    using g paths_distinct [of w] by (simp add: l2 gzip_opened_def)
  from g have a4: "replace_ok w" "open_in_ok w" "gzip_open_ok w"
    by (simp_all add: gzip_opened_def)
  from install_write_failed [OF a1 a4(1) a2 a4(2) a4(3) a3 f, of keep] obtain s4 where
    m4: "install w keep s2 = (Uncaught OSError, s4)"
    and l4: "\<forall>p. lookup s4 p =
                 (if p = final_gz_of w then Some (File partial)
                  else if p = final_out_of w then Some (File snap)
                  else if p = tmp_out_of w then None else lookup s2 p)"
    by blast
  show ?thesis
    using paths_distinct [of w] by (simp add: m2 m4 l4)
qed

lemma main_success_final:
  assumes k: "keep_of w = Some keep" and st: "steps_succeed w s" and b: "backup_result w = CopyOk snap"
  shows "fst (main w s) = Returned"
    and "lookup (snd (main w s)) p =
          (if p \<in> path_join (out_dir_of w) ` set (victims w keep s) \<and>
              (\<exists>b. staged w snap s p = Some (File b)) \<and> \<not> remove_denied w p
           then None else staged w snap s p)"
    and "trace (snd (main w s)) = trace s @
             [MkDir (out_dir_of w), OpenCreate (tmp_out_of w), WriteFile (tmp_out_of w),
              Rename (tmp_out_of w) (final_out_of w), OpenCreate (final_gz_of w),
              WriteFile (final_gz_of w), Unlink (final_out_of w)] @
             map (\<lambda>f. Unlink (path_join (out_dir_of w) f)) (victims w keep s)"
    and "out (snd (main w s)) = out s @ [''OK: '' @ final_gz_of w]"
    and "err (snd (main w s)) = err s"
proof -
  from main_success [OF k st b] obtain s5 where
    m: "main w s = (Returned, remove_each w (out_dir_of w) (victims w keep s) s5)"
    and l: "\<forall>p. lookup s5 p = staged w snap s p"
    and t: "trace s5 = trace s @
             [MkDir (out_dir_of w), OpenCreate (tmp_out_of w), WriteFile (tmp_out_of w),
              Rename (tmp_out_of w) (final_out_of w), OpenCreate (final_gz_of w),
              WriteFile (final_gz_of w), Unlink (final_out_of w)]"
    and o: "out s5 = out s @ [''OK: '' @ final_gz_of w]" "err s5 = err s"
    by blast
  show "fst (main w s) = Returned" by (simp add: m)
  show "lookup (snd (main w s)) p =
          (if p \<in> path_join (out_dir_of w) ` set (victims w keep s) \<and>
              (\<exists>b. staged w snap s p = Some (File b)) \<and> \<not> remove_denied w p
           then None else staged w snap s p)"
    by (auto simp: m lookup_remove_each l)
  show "trace (snd (main w s)) = trace s @
             [MkDir (out_dir_of w), OpenCreate (tmp_out_of w), WriteFile (tmp_out_of w),
              Rename (tmp_out_of w) (final_out_of w), OpenCreate (final_gz_of w),
              WriteFile (final_gz_of w), Unlink (final_out_of w)] @
             map (\<lambda>f. Unlink (path_join (out_dir_of w) f)) (victims w keep s)"
    by (simp add: m trace_remove_each t)
  show "out (snd (main w s)) = out s @ [''OK: '' @ final_gz_of w]"
    by (simp add: m out_remove_each o)
  show "err (snd (main w s)) = err s"
    by (simp add: m err_remove_each o)
qed

lemma set_files_at_rotation:
  "set (files_at_rotation w s) =
     {f. is_backup f \<and> (f = gz_name w \<or> f \<in> set (children (out_dir_of w) s))}"
  by (auto simp: files_at_rotation_def set_backup_files)

lemma distinct_files_at_rotation: "distinct (files_at_rotation w s)"
  by (simp add: files_at_rotation_def distinct_backup_files distinct_children)

lemma gz_name_in_files: "gz_name w \<in> set (files_at_rotation w s)"
  by (simp add: set_files_at_rotation gz_name_is_backup)

lemma victims_backup: "f \<in> set (victims w keep s) \<Longrightarrow> is_backup f"
  using set_slice_from [of keep "files_at_rotation w s"]
  by (auto simp: victims_def set_files_at_rotation)

lemma victims_in_files: "set (victims w keep s) \<subseteq> set (files_at_rotation w s)"
  by (simp add: victims_def set_slice_from)

lemma join_in_victims:
  "is_backup f \<Longrightarrow>
   path_join d f \<in> path_join d ` set (victims w keep s) \<longleftrightarrow> f \<in> set (victims w keep s)"
  using path_join_inj [OF is_backup_rel is_backup_rel] victims_backup by blast

lemma staged_backup:
  assumes "is_backup f"
  shows "staged w snap s (path_join (out_dir_of w) f) =
           (if f = gz_name w then Some (File (gzip w snap)) else lookup s (path_join (out_dir_of w) f))"
proof -
  have "path_join (out_dir_of w) f = final_gz_of w \<longleftrightarrow> f = gz_name w"
    using path_join_inj [OF is_backup_rel [OF assms] is_backup_rel [OF gz_name_is_backup], of "out_dir_of w" w]
    by (simp add: final_gz_join)
  then show ?thesis
    using backup_path_neq [OF assms, of "out_dir_of w" w] backup_path_neq_dir [OF assms, of "out_dir_of w"]
    by (simp add: staged_def)
qed

lemma victim_removed:
  assumes k: "keep_of w = Some keep" and st: "steps_succeed w s" and b: "backup_result w = CopyOk snap"
    and v: "f \<in> set (victims w keep s)"
    and r: "\<not> remove_denied w (path_join (out_dir_of w) f)"
    and nd: "lookup s (path_join (out_dir_of w) f) \<noteq> Some Dir"
  shows "lookup (snd (main w s)) (path_join (out_dir_of w) f) = None"
proof -
  have bf: "is_backup f" by (rule victims_backup [OF v])
  have "staged w snap s (path_join (out_dir_of w) f) = None \<or>
        (\<exists>b. staged w snap s (path_join (out_dir_of w) f) = Some (File b))"
  proof (cases "lookup s (path_join (out_dir_of w) f)")
    case None
    then show ?thesis by (simp add: staged_backup [OF bf])
  next
    case (Some e)
    with nd show ?thesis by (cases e) (simp_all add: staged_backup [OF bf])
  qed
  then show ?thesis
    using v r by (auto simp: main_success_final(2) [OF k st b])
qed

lemma kept_untouched:
  assumes k: "keep_of w = Some keep" and st: "steps_succeed w s" and b: "backup_result w = CopyOk snap"
    and bf: "is_backup f" and v: "f \<notin> set (victims w keep s)"
  shows "lookup (snd (main w s)) (path_join (out_dir_of w) f) =
           (if f = gz_name w then Some (File (gzip w snap)) else lookup s (path_join (out_dir_of w) f))"
  using v by (simp add: main_success_final(2) [OF k st b] join_in_victims [OF bf] staged_backup [OF bf])

lemma steps_succeed_copy: "steps_succeed w s \<Longrightarrow> \<exists>snap keep. backup_result w = CopyOk snap \<and> keep_of w = Some keep"
  by (auto simp: steps_succeed_def gzip_opened_def snapshot_taken_def is_copy_ok_def
      split: copy_result.splits)

lemma new_ops_append: "trace s' = trace s @ ops \<Longrightarrow> new_ops s s' = ops"
  by (simp add: new_ops_def)

lemma run_Returned: "fst (main w s) = Returned \<Longrightarrow> run w s = (0, snd (main w s))"
  by (cases "main w s") (simp add: run_def)

lemma run_Uncaught: "fst (main w s) = Uncaught e \<Longrightarrow> fst (run w s) = 1"
  by (cases "main w s") (simp add: run_def)

lemma paths_cong:
  assumes "environ w' = environ w" "keep_int w' = keep_int w" "now w' = now w"
  shows "out_dir_of w' = out_dir_of w" "db_path_of w' = db_path_of w" "keep_of w' = keep_of w"
    "tmp_out_of w' = tmp_out_of w" "final_out_of w' = final_out_of w"
    "final_gz_of w' = final_gz_of w" "gz_name w' = gz_name w"
  using assms
  by (simp_all add: out_dir_of_def db_path_of_def keep_of_def tmp_out_of_def final_out_of_def
        final_gz_of_def gz_name_def tmp_name_def final_name_def environ_get_def
        split: option.splits)

lemma children_old: "children ''b'' (example_state old_backups) =
    [''edrmount.db.1.sqlite.gz'', ''edrmount.db.2.sqlite.gz'']"
  by (simp add: children_def example_state_def old_backups_def child_name_def dir_prefix_def
        suffix_to_prefix Let_def)

lemma files_old: "files_at_rotation (example_world v r) (example_state old_backups) =
    [''edrmount.db.20240102-030405.sqlite.gz'', ''edrmount.db.2.sqlite.gz'', ''edrmount.db.1.sqlite.gz'']"
  by (simp add: files_at_rotation_def example_env example_paths children_old backup_files_def
        sorted_reverse_def is_backup_def suffix_to_prefix)

lemma slice_from_negative:
  "0 < k \<Longrightarrow> slice_from (- int k) xs = drop (length xs - min k (length xs)) xs"
  by (auto simp: slice_from_def min_def intro: arg_cong [where f = "\<lambda>n. drop n xs"])

lemma slice_from_nat: "slice_from (int n) xs = drop n xs"
  by (simp add: slice_from_def)

lemma not_in_drop:
  assumes "distinct xs" "x \<in> set (take n xs)"
  shows "x \<notin> set (drop n xs)"
proof -
  have "distinct (take n xs @ drop n xs)" using assms(1) by simp
  then show ?thesis using assms(2) by (simp only: distinct_append) blast
qed

lemma deny_one_world:
  "environ ((example_world v r)\<lparr>remove_denied := f\<rparr>) = environ (example_world v r)"
  "keep_int ((example_world v r)\<lparr>remove_denied := f\<rparr>) = keep_int (example_world v r)"
  "now ((example_world v r)\<lparr>remove_denied := f\<rparr>) = now (example_world v r)"
  by simp_all

lemma files_cong:
  assumes "environ w' = environ w" "keep_int w' = keep_int w" "now w' = now w"
  shows "files_at_rotation w' s = files_at_rotation w s" "victims w' keep s = victims w keep s"
  using paths_cong [OF assms] by (simp_all add: files_at_rotation_def victims_def)

lemma files_present:
  assumes st: "steps_succeed w s" and f: "f \<in> set (files_at_rotation w s)" and n: "f \<noteq> gz_name w"
  shows "lookup s (path_join (out_dir_of w) f) \<noteq> None"
proof -
  from st have d: "out_dir_of w \<noteq> []"
    by (simp add: steps_succeed_def gzip_opened_def snapshot_taken_def)
  from f n have b: "is_backup f" and c: "f \<in> set (children (out_dir_of w) s)"
    by (auto simp: set_files_at_rotation)
  from c have "lookup s (dir_prefix (out_dir_of w) @ f) \<noteq> None" by (simp add: set_children)
  then show ?thesis
    by (simp add: path_join_rel [OF is_backup_rel [OF b]] join_prefix_dir [OF d])
qed

lemma example_oracle:
  "remove_denied (example_world v r) p = False" "gzip (example_world v r) b = ''G'' @ b"
  "backup_result (example_world v r) = CopyOk ''S''"
  by (simp_all add: example_world_def)

lemma backup_files_unique:
  assumes "distinct xs" "{f \<in> set xs. is_backup f} = set ys" "distinct ys" "sorted (rev ys)"
  shows "backup_files xs = ys"
proof -
  have "sort (filter is_backup xs) = rev ys"
    by (rule sorted_distinct_set_unique) (use assms in auto)
  then show ?thesis by (simp add: backup_files_def sorted_reverse_def)
qed

lemma files_no_slash:
  assumes "f \<in> set (files_at_rotation w s)"
  shows "f \<noteq> [] \<and> CHR ''/'' \<notin> set f"
proof (cases "f = gz_name w")
  case True
  then show ?thesis
    using gz_name_no_slash [of w] is_backup_last [OF gz_name_is_backup, of w] by simp
next
  case False
  with assms have "f \<in> set (children (out_dir_of w) s)" by (simp add: set_files_at_rotation)
  then show ?thesis by (simp add: set_children)
qed

lemma survivors:
  assumes k: "keep_of w = Some keep" and st: "steps_succeed w s" and b: "backup_result w = CopyOk snap"
    and rem: "\<forall>f \<in> set (victims w keep s).
            \<not> remove_denied w (path_join (out_dir_of w) f) \<and>
            lookup s (path_join (out_dir_of w) f) \<noteq> Some Dir"
  shows "{f \<in> set (children (out_dir_of w) (snd (main w s))). is_backup f} =
           set (files_at_rotation w s) - set (victims w keep s)"
proof -
  from st have d: "out_dir_of w \<noteq> []"
    by (simp add: steps_succeed_def gzip_opened_def snapshot_taken_def)
  have pj: "dir_prefix (out_dir_of w) @ f = path_join (out_dir_of w) f" if "is_backup f" for f
    by (simp add: path_join_rel [OF is_backup_rel [OF that]] join_prefix_dir [OF d])
  have "f \<in> set (children (out_dir_of w) (snd (main w s))) \<longleftrightarrow>
        f \<in> set (files_at_rotation w s) - set (victims w keep s)" if bf: "is_backup f" for f
  proof (cases "f \<in> set (victims w keep s)")
    case True
    then have "lookup (snd (main w s)) (path_join (out_dir_of w) f) = None"
      using victim_removed [OF k st b True] rem by blast
    then show ?thesis using True by (simp add: set_children pj [OF bf])
  next
    case False
    note e = kept_untouched [OF k st b bf False]
    show ?thesis
    proof
      assume c: "f \<in> set (children (out_dir_of w) (snd (main w s)))"
      then have n: "f \<noteq> []" "CHR ''/'' \<notin> set f"
        and l: "lookup (snd (main w s)) (path_join (out_dir_of w) f) \<noteq> None"
        by (simp_all add: set_children pj [OF bf])
      have "f = gz_name w \<or> f \<in> set (children (out_dir_of w) s)"
        using l e n by (auto simp: set_children pj [OF bf])
      then show "f \<in> set (files_at_rotation w s) - set (victims w keep s)"
        using False bf by (simp add: set_files_at_rotation)
    next
      assume m: "f \<in> set (files_at_rotation w s) - set (victims w keep s)"
      then have n: "f \<noteq> [] \<and> CHR ''/'' \<notin> set f" using files_no_slash [of f w s] by simp
      have "lookup (snd (main w s)) (path_join (out_dir_of w) f) \<noteq> None"
        using e files_present [OF st, of f] m by (cases "f = gz_name w") simp_all
      then show "f \<in> set (children (out_dir_of w) (snd (main w s)))"
        using n by (simp add: set_children pj [OF bf])
    qed
  qed
  moreover have "is_backup f" if "f \<in> set (files_at_rotation w s)" for f
    using that by (simp add: set_files_at_rotation)
  ultimately show ?thesis by blast
qed

lemma rotation_survivors:
  assumes k: "keep_of w = Some (int n)" and st: "steps_succeed w s"
    and rem: "\<forall>f \<in> set (victims w (int n) s).
            \<not> remove_denied w (path_join (out_dir_of w) f) \<and>
            lookup s (path_join (out_dir_of w) f) \<noteq> Some Dir"
  shows "backup_files (children (out_dir_of w) (snd (main w s))) = take n (files_at_rotation w s)"
proof (rule backup_files_unique)
  let ?files = "files_at_rotation w s"
  from steps_succeed_copy [OF st] obtain snap where b: "backup_result w = CopyOk snap" by blast
  show "distinct (children (out_dir_of w) (snd (main w s)))" by (rule distinct_children)
  have v: "victims w (int n) s = drop n ?files" by (simp add: victims_def slice_from_nat)
  have "set ?files - set (drop n ?files) = set (take n ?files)"
  proof -
    have "set ?files = set (take n ?files) \<union> set (drop n ?files)"
      by (metis append_take_drop_id set_append)
    moreover have "set (take n ?files) \<inter> set (drop n ?files) = {}"
      using not_in_drop [OF distinct_files_at_rotation] by blast
    ultimately show ?thesis by blast
  qed
  then show "{f \<in> set (children (out_dir_of w) (snd (main w s))). is_backup f} = set (take n ?files)"
    using survivors [OF k st b rem] by (simp add: v)
  show "distinct (take n ?files)" by (simp add: distinct_files_at_rotation)
  have "sorted (rev ?files)" by (simp add: files_at_rotation_def sorted_rev_backup_files)
  then show "sorted (rev (take n ?files))" by (simp add: rev_take sorted_wrt_drop)
qed

lemma length_files_at_rotation:
  "length (files_at_rotation w s) =
     (if gz_name w \<in> set (children (out_dir_of w) s)
      then length (backup_files (children (out_dir_of w) s))
      else length (backup_files (children (out_dir_of w) s)) + 1)"
  by (simp add: files_at_rotation_def backup_files_def sorted_reverse_def List.insert_def
        gz_name_is_backup)

lemma children_same_second: "children ''b'' (example_state same_second_store) =
    [''edrmount.db.20240102-030405.sqlite.gz'']"
  by (simp add: children_def example_state_def same_second_store_def child_name_def dir_prefix_def
        suffix_to_prefix Let_def)

lemma files_same_second: "files_at_rotation (example_world v r) (example_state same_second_store) =
    [''edrmount.db.20240102-030405.sqlite.gz'']"
  by (simp add: files_at_rotation_def example_env example_paths children_same_second
        backup_files_def sorted_reverse_def is_backup_def suffix_to_prefix)

lemma suffix_last:
  "suffix ''.tmp'' p \<Longrightarrow> last p = CHR ''p''" "suffix ''.sqlite'' p \<Longrightarrow> last p = CHR ''e''"
  by (auto simp: suffix_def)

lemma backup_paths_last: "p \<in> backup_paths d \<Longrightarrow> last p = CHR ''z''"
  using is_backup_last by (auto simp: backup_paths_def path_join_def)

lemma final_gz_last: "last (final_gz_of w) = CHR ''z''"
  by (simp add: final_gz_of_def)

lemma leftover_not_backup:
  assumes "suffix ''.tmp'' p \<or> suffix ''.sqlite'' p"
  shows "p \<notin> backup_paths d" "p \<noteq> final_gz_of w"
  using assms suffix_last [of p] backup_paths_last [of p d] final_gz_last [of w] by auto

lemma rotate_ops:
  "op \<in> set (new_ops s (snd (rotate w d keep s))) \<Longrightarrow> \<exists>f. is_backup f \<and> op = Unlink (path_join d f)"
proof (cases "listdir w d s")
  case (Inl e)
  assume "op \<in> set (new_ops s (snd (rotate w d keep s)))"
  with Inl show ?thesis by (simp add: rotate_def new_ops_def)
next
  case (Inr names)
  assume "op \<in> set (new_ops s (snd (rotate w d keep s)))"
  with Inr have "op \<in> (\<lambda>f. Unlink (path_join d f)) ` set (slice_from keep (backup_files names))"
    by (simp add: rotate_def new_ops_def trace_remove_each)
  then show ?thesis
    using set_slice_from [of keep "backup_files names"] by (auto simp: set_backup_files)
qed

subsection \<open>No step but \<open>makedirs\<close> makes a directory\<close>

lemma no_dir_made_refl: "no_dir_made d s s"
  by (simp add: no_dir_made_def)

lemma no_dir_made_trans: "no_dir_made d s s' \<Longrightarrow> no_dir_made d s' s'' \<Longrightarrow> no_dir_made d s s''"
  by (simp add: no_dir_made_def)

lemma no_dir_made_out: "no_dir_made d s s' \<Longrightarrow> no_dir_made d s (s'\<lparr>out := x\<rparr>)"
  by (simp add: no_dir_made_def)

lemma no_dir_made_err: "no_dir_made d s s' \<Longrightarrow> no_dir_made d s (s'\<lparr>err := x\<rparr>)"
  by (simp add: no_dir_made_def)

lemma no_dir_made_engine [simp]: "no_dir_made d s (engine f s') = no_dir_made d s s'"
  by (simp add: no_dir_made_def)

lemma makedirs_no_dir: "no_dir_made d s (snd (makedirs w d s))"
  by (auto simp: no_dir_made_def makedirs_def split: option.splits entry.splits)

lemma snapshot_no_dir: "no_dir_made d s (snd (snapshot w db p s))"
  by (auto simp: no_dir_made_def snapshot_def sqlite_connect_tmp_def con_backup_def Let_def
      split: option.splits entry.splits copy_result.splits if_splits)

lemma os_replace_no_dir: "no_dir_made d s (snd (os_replace w src dst s))"
  by (auto simp: no_dir_made_def os_replace_def update_conv' delete_conv' map_of_store
      split: option.splits entry.splits if_splits)

lemma compress_no_dir: "no_dir_made d s (snd (compress w fo gz s))"
  by (auto simp: no_dir_made_def compress_def Let_def
      split: option.splits entry.splits write_result.splits if_splits)

lemma os_remove_no_dir: "no_dir_made d s (snd (os_remove w p s))"
  by (auto simp: no_dir_made_def lookup_os_remove)

lemma remove_each_no_dir: "no_dir_made d s (remove_each w d' fs s)"
  by (auto simp: no_dir_made_def lookup_remove_each)

lemma rotate_no_dir: "no_dir_made d s (snd (rotate w d' keep s))"
  by (cases "listdir w d' s") (simp_all add: rotate_def no_dir_made_refl remove_each_no_dir)

lemma install_no_dir: "no_dir_made d s (snd (install w keep s))"
proof -
  let ?s3 = "snd (os_replace w (tmp_out_of w) (final_out_of w) s)"
  let ?s4 = "snd (compress w (final_out_of w) (final_gz_of w) ?s3)"
  let ?s5 = "snd (os_remove w (final_out_of w) ?s4)"
  let ?s5' = "?s5\<lparr>out := out ?s5 @ [''OK: '' @ final_gz_of w]\<rparr>"
  let ?s6 = "snd (rotate w (out_dir_of w) keep ?s5')"
  have w3: "no_dir_made d s ?s3" by (rule os_replace_no_dir)
  have w4: "no_dir_made d s ?s4" by (rule no_dir_made_trans [OF w3 compress_no_dir])
  have w5: "no_dir_made d s ?s5" by (rule no_dir_made_trans [OF w4 os_remove_no_dir])
  have w5': "no_dir_made d s ?s5'" by (rule no_dir_made_out [OF w5])
  have w6: "no_dir_made d s ?s6" by (rule no_dir_made_trans [OF w5' rotate_no_dir])
  show ?thesis
    using w3 w4 w5 w6 by (auto simp: install_def split: prod.splits sum.splits)
qed

lemma main_no_dir: "no_dir_made (out_dir_of w) s (snd (main w s))"
proof -
  let ?d = "out_dir_of w"
  let ?s1 = "snd (makedirs w ?d s)"
  let ?s2 = "snd (snapshot w (db_path_of w) (tmp_out_of w) ?s1)"
  have w0: "no_dir_made ?d s (s\<lparr>err := x\<rparr>)" for x
    by (rule no_dir_made_err [OF no_dir_made_refl])
  have w1: "no_dir_made ?d s ?s1" by (rule makedirs_no_dir)
  have w2: "no_dir_made ?d s ?s2" by (rule no_dir_made_trans [OF w1 snapshot_no_dir])
  have w3: "no_dir_made ?d s (snd (install w keep ?s2))" for keep
    by (rule no_dir_made_trans [OF w2 install_no_dir])
  show ?thesis
    using w0 w1 w2 w3
    by (auto simp: main_def die_def no_dir_made_refl split: prod.splits sum.splits option.splits)
qed

lemma main_dir_exists:
  assumes "snapshot_taken w s"
  shows "lookup (snd (main w s)) (out_dir_of w) = Some Dir"
proof -
  from assms obtain keep snap where k: "keep_of w = Some keep" and b: "backup_result w = CopyOk snap"
    by (auto simp: snapshot_taken_def is_copy_ok_def split: copy_result.splits)
  from main_snapshot_taken [OF k assms b] obtain s2 where
    m2: "main w s = install w keep s2"
    and l2: "\<forall>p. lookup s2 p =
                 (if p = tmp_out_of w then Some (File snap)
                  else if p = out_dir_of w then Some Dir else lookup s p)"
    by blast
  have "out_dir_of w \<notin> {tmp_out_of w, final_out_of w, final_gz_of w} \<union> backup_paths (out_dir_of w)"
    using paths_distinct [of w] backup_path_neq_dir [of _ "out_dir_of w"]
    by (auto simp: backup_paths_def dest: sym)
  from within_lookup [OF install_within this, of keep s2] show ?thesis
    using paths_distinct [of w] by (simp add: m2 l2)
qed

lemma names_cong:
  assumes "now w' = now w" "out_dir_of w' = out_dir_of w"
  shows "tmp_out_of w' = tmp_out_of w" "final_out_of w' = final_out_of w"
    "final_gz_of w' = final_gz_of w" "gz_name w' = gz_name w"
  using assms
  by (simp_all add: tmp_out_of_def final_out_of_def final_gz_of_def gz_name_def tmp_name_def
        final_name_def)

lemma rerun_steps_succeed:
  assumes first: "gzip_opened w1 s0"
    and same: "now w2 = now w1" "out_dir_of w2 = out_dir_of w1"
    and ok: "calls_succeed w2" "keep_of w2 \<noteq> None"
    and db: "path_exists (snd (main w1 s0)) (db_path_of w2)"
      "lookup (snd (main w1 s0)) (db_path_of w2) \<noteq> Some Dir"
  shows "steps_succeed w2 (snd (main w1 s0))"
proof (rule steps_succeed_calls [OF ok db])
  note n = names_cong [OF same]
  from first have t: "snapshot_taken w1 s0" by (simp add: gzip_opened_def)
  then show "out_dir_of w2 \<noteq> []" by (simp add: same snapshot_taken_def)
  show "\<forall>b. lookup (snd (main w1 s0)) (out_dir_of w2) \<noteq> Some (File b)"
    by (simp add: same main_dir_exists [OF t])
  note nd = main_no_dir [of w1 s0, unfolded no_dir_made_def, rule_format]
  show "lookup (snd (main w1 s0)) (tmp_out_of w2) \<noteq> Some Dir"
    using nd [of "tmp_out_of w1"] t paths_distinct [of w1] by (auto simp: n snapshot_taken_def)
  show "lookup (snd (main w1 s0)) (final_out_of w2) \<noteq> Some Dir"
    using nd [of "final_out_of w1"] first paths_distinct [of w1] by (auto simp: n gzip_opened_def)
  show "lookup (snd (main w1 s0)) (final_gz_of w2) \<noteq> Some Dir"
    using nd [of "final_gz_of w1"] first paths_distinct [of w1] by (auto simp: n gzip_opened_def)
qed

lemma main_write_failed_lookup:
  assumes g: "gzip_opened w s" and b: "backup_result w = CopyOk snap"
    and f: "gzip_write w = WriteFailed partial"
  shows "lookup (snd (main w s)) p =
           (if p = final_gz_of w then Some (File partial)
            else if p = final_out_of w then Some (File snap)
            else if p = tmp_out_of w then None
            else if p = out_dir_of w then Some Dir else lookup s p)"
proof -
  from g have t: "snapshot_taken w s" by (simp add: gzip_opened_def)
  then obtain keep where k: "keep_of w = Some keep" by (auto simp: snapshot_taken_def)
  from main_snapshot_taken [OF k t b] obtain s2 where
    m2: "main w s = install w keep s2"
    and l2: "\<forall>p. lookup s2 p =
                 (if p = tmp_out_of w then Some (File snap)
                  else if p = out_dir_of w then Some Dir else lookup s p)"
    by blast
  have a1: "lookup s2 (tmp_out_of w) = Some (File snap)" by (simp add: l2)
  have a2: "lookup s2 (final_out_of w) \<noteq> Some Dir"
    using g paths_distinct [of w] by (simp add: l2 gzip_opened_def)
  have a3: "lookup s2 (final_gz_of w) \<noteq> Some Dir"
    using g paths_distinct [of w] by (simp add: l2 gzip_opened_def)
  from g have a4: "replace_ok w" "open_in_ok w" "gzip_open_ok w"
    by (simp_all add: gzip_opened_def)
  from install_write_failed [OF a1 a4(1) a2 a4(2) a4(3) a3 f, of keep] obtain s4 where
    m4: "install w keep s2 = (Uncaught OSError, s4)"
    and l4: "\<forall>p. lookup s4 p =
                 (if p = final_gz_of w then Some (File partial)
                  else if p = final_out_of w then Some (File snap)
                  else if p = tmp_out_of w then None else lookup s2 p)"
    by blast
  show ?thesis
    using paths_distinct [of w] by (simp add: m2 m4 l4 l2)
qed

lemma files_at_rotation_single:
  assumes "\<forall>f. is_backup f \<and> f \<in> set (children (out_dir_of w) s) \<longrightarrow> f = gz_name w"
  shows "files_at_rotation w s = [gz_name w]"
  unfolding files_at_rotation_def
proof (rule backup_files_unique)
  show "distinct (List.insert (gz_name w) (children (out_dir_of w) s))"
    by (simp add: distinct_children)
  show "{f \<in> set (List.insert (gz_name w) (children (out_dir_of w) s)). is_backup f} = set [gz_name w]"
    using assms gz_name_is_backup [of w] by auto
qed simp_all

lemma main_untouched:
  "p \<notin> {out_dir_of w, tmp_out_of w, final_out_of w, final_gz_of w} \<union> backup_paths (out_dir_of w)
   \<Longrightarrow> lookup (snd (main w s)) p = lookup s p"
  by (rule within_lookup [OF main_within])

lemma example_db_untouched:
  assumes "environ w = environ (example_world v r)" "keep_int w = keep_int (example_world v r)"
    "now w = now (example_world v r)"
  shows "lookup (snd (main w s)) ''d'' = lookup s ''d''"
proof (rule main_untouched)
  note p = paths_cong [OF assms]
  have "''d'' \<notin> backup_paths (out_dir_of w)"
    using backup_paths_last [of "''d''" "out_dir_of w"] by auto
  then show "''d'' \<notin> {out_dir_of w, tmp_out_of w, final_out_of w, final_gz_of w} \<union>
      backup_paths (out_dir_of w)"
    by (simp add: p example_env example_paths)
qed

lemma install_not_sqlite: "fst (install w keep s) \<noteq> Uncaught SqliteError"
  by (auto simp: install_def os_replace_def compress_def os_remove_def rotate_def listdir_def Let_def
      split: prod.splits sum.splits option.splits entry.splits write_result.splits if_splits)

lemma makedirs_not_sqlite: "fst (makedirs w d s) \<noteq> Inl SqliteError"
  by (auto simp: makedirs_def split: option.splits entry.splits)

lemma main_sqlite_error:
  assumes "fst (main w s) = Uncaught SqliteError"
  shows "within {out_dir_of w, tmp_out_of w} s (snd (main w s))"
proof -
  let ?R = "{out_dir_of w, tmp_out_of w}"
  let ?s1 = "snd (makedirs w (out_dir_of w) s)"
  let ?s2 = "snd (snapshot w (db_path_of w) (tmp_out_of w) ?s1)"
  have w1: "within ?R s ?s1"
    by (rule within_mono [OF makedirs_within]) simp
  have w2: "within ?R s ?s2"
    by (rule within_trans' [OF w1 snapshot_within]) simp
  show ?thesis
    using assms w2 install_not_sqlite [of w _ ?s2] makedirs_not_sqlite [of w "out_dir_of w" s]
    by (auto simp: main_def die_def split: prod.splits sum.splits option.splits if_splits)
qed

lemma install_value_error: "fst (install w keep s) \<noteq> Uncaught ValueError"
  by (auto simp: install_def os_replace_def compress_def os_remove_def rotate_def listdir_def Let_def
      split: prod.splits sum.splits option.splits entry.splits write_result.splits if_splits)

lemma makedirs_value_error: "fst (makedirs w d s) \<noteq> Inl ValueError"
  by (auto simp: makedirs_def split: option.splits entry.splits)

lemma snapshot_value_error: "fst (snapshot w db p s) \<noteq> Inl ValueError"
  by (auto simp: snapshot_def sqlite_connect_tmp_def con_backup_def Let_def split_beta
      split: option.splits entry.splits copy_result.splits)

lemma main_value_error:
  assumes "fst (main w s) = Uncaught ValueError"
  shows "keep_of w = None"
  using assms install_value_error [of w] makedirs_value_error [of w "out_dir_of w" s]
    snapshot_value_error [of w "db_path_of w" "tmp_out_of w"]
  by (auto simp: main_def die_def split: prod.splits sum.splits option.splits if_splits)
     (metis fst_conv)+

subsection \<open>What the run does to the source database\<close>

lemma source_engine [simp]: "source (engine f s) = f (source s)"
  by (simp add: engine_def)

lemma source_put [simp]: "source (put p e op s) = source s"
  and source_log_op [simp]: "source (log_op op s) = source s"
  by (simp_all add: put_def log_op_def)

lemma source_makedirs: "source (snd (makedirs w d s)) = source s"
  by (auto simp: makedirs_def split: option.splits entry.splits)

lemma source_sqlite_connect_tmp: "source (snd (sqlite_connect_tmp w p s)) = source s"
  by (auto simp: sqlite_connect_tmp_def split: option.splits entry.splits)

lemma source_con_backup: "source (snd (con_backup w p s)) = source s"
  by (auto simp: con_backup_def split: copy_result.splits)

lemma source_os_replace: "source (snd (os_replace w a b s)) = source s"
  by (auto simp: os_replace_def split: option.splits entry.splits)

lemma source_compress: "source (snd (compress w a b s)) = source s"
  by (auto simp: compress_def Let_def split: option.splits entry.splits write_result.splits)

lemma source_os_remove: "source (snd (os_remove w p s)) = source s"
  by (auto simp: os_remove_def split: option.splits entry.splits)

lemma source_remove_each: "source (remove_each w d fs s) = source s"
  by (induction fs arbitrary: s) (simp_all add: source_os_remove)

lemma source_rotate: "source (snd (rotate w d keep s)) = source s"
  by (cases "listdir w d s") (simp_all add: rotate_def source_remove_each)

lemma source_install: "source (snd (install w keep s)) = source s"
proof -
  let ?s3 = "snd (os_replace w (tmp_out_of w) (final_out_of w) s)"
  let ?s4 = "snd (compress w (final_out_of w) (final_gz_of w) ?s3)"
  let ?s5 = "snd (os_remove w (final_out_of w) ?s4)"
  let ?s5' = "?s5\<lparr>out := out ?s5 @ [''OK: '' @ final_gz_of w]\<rparr>"
  have 3: "source ?s3 = source s" by (rule source_os_replace)
  have 4: "source ?s4 = source s" by (simp add: source_compress 3)
  have 5: "source ?s5 = source s" by (simp add: source_os_remove 4)
  have 6: "source (snd (rotate w (out_dir_of w) keep ?s5')) = source s"
    by (simp add: source_rotate 5)
  show ?thesis
    using 3 4 5 6 by (auto simp: install_def split: prod.splits sum.splits)
qed

lemma source_snapshot:
  assumes "connect_ok w" "lookup s db \<noteq> Some Dir" "busy_timeout_ok w"
  shows "source (snd (snapshot w db p s)) =
           closed w ((if checkpoint_ok w then checkpointed w (opened w (source s))
                      else opened w (source s)))"
  using assms
  by (auto simp: snapshot_def Let_def split_beta source_sqlite_connect_tmp source_con_backup
      split: sum.splits)

lemma source_after_run:
  assumes "steps_succeed w s"
  shows "source (snd (main w s)) =
           closed w ((if checkpoint_ok w then checkpointed w (opened w (source s))
                      else opened w (source s)))"
proof -
  from assms have t: "snapshot_taken w s"
    by (simp add: steps_succeed_def gzip_opened_def)
  then obtain keep where k: "keep_of w = Some keep" by (auto simp: snapshot_taken_def)
  let ?s1 = "snd (makedirs w (out_dir_of w) s)"
  let ?r2 = "snapshot w (db_path_of w) (tmp_out_of w) ?s1"
  from t have e: "path_exists s (db_path_of w)" and c: "connect_ok w" "busy_timeout_ok w"
    and nd: "lookup s (db_path_of w) \<noteq> Some Dir"
    by (simp_all add: snapshot_taken_def)
  have db: "lookup ?s1 (db_path_of w) = lookup s (db_path_of w)"
    using e by (auto simp: makedirs_def path_exists_def split: option.splits entry.splits)
  have 2: "source (snd ?r2) =
           closed w ((if checkpoint_ok w then checkpointed w (opened w (source s))
                      else opened w (source s)))"
    using source_snapshot [of w ?s1 "db_path_of w" "tmp_out_of w"] c nd db
    by (simp add: source_makedirs)
  have r: "fst (main w s) = Returned" by (simp add: main_Returned_iff assms)
  have "main w s = install w keep (snd ?r2)"
    using r k e
    by (auto simp: main_def die_def split: prod.splits sum.splits if_splits)
  then show ?thesis by (simp add: source_install 2)
qed

lemma example_source_after_run:
  "source (snd (main (example_world ''1'' (Some 1)) (example_state [(''d'', File ''D'')]))) =
     \<lparr>main_file = ''DW'', wal_file = None, shm_file = None\<rparr>"
proof -
  have st: "steps_succeed (example_world ''1'' (Some 1)) (example_state [(''d'', File ''D'')])"
    by (rule steps_succeed_calls)
       (simp_all add: example_calls example_env example_paths path_exists_def)
  show ?thesis
    by (simp add: source_after_run [OF st])
       (simp add: example_world_def example_state_def example_source_def)
qed


section \<open>Properties of the script\<close>

subsection \<open>Failing before any side effect\<close>

text \<open>
  C5 (as amended). When the source database path does not exist, the run ends with a
  non-zero status and a diagnostic on stderr, and nothing else happens: the store (so the
  output directory is not created, and no file in it is created, changed or deleted), the
  source database's files, the log of filesystem calls and stdout are as before. The
  diagnostic is the report \<open>DB not found:\<close> with the path, written by \<open>die\<close> (line 16),
  when the retention count parses; when it does not, line 13 has raised \<open>ValueError\<close>
  before the existence check and the diagnostic is the traceback of that error.
\<close>

theorem source_not_found_no_side_effects:
  assumes "\<not> path_exists s (db_path_of w)"
  shows "fst (run w s) \<noteq> 0 \<and> err (snd (run w s)) \<noteq> err s \<and>
         store (snd (run w s)) = store s \<and> source (snd (run w s)) = source s \<and>
         trace (snd (run w s)) = trace s \<and> out (snd (run w s)) = out s \<and>
         (keep_of w \<noteq> None \<longrightarrow>
            main w s = (SysExit 1, s\<lparr>err := err s @ [''DB not found: '' @ db_path_of w]\<rparr>)) \<and>
         (keep_of w = None \<longrightarrow> main w s = (Uncaught ValueError, s))"
  using assms by (cases "keep_of w") (simp_all add: run_def main_def die_def)

theorem source_not_found_witness:
  "\<not> path_exists (example_state []) ''d'' \<and> \<not> path_exists (example_state []) ''b'' \<and>
   run (example_world ''1'' (Some 1)) (example_state []) =
     (1, \<lparr>store = [], source = example_source, out = [], err = [''DB not found: d''],
          trace = []\<rparr>) \<and>
   main (example_world ''abc'' None) (example_state []) = (Uncaught ValueError, example_state [])"
proof -
  have h: "\<not> path_exists (example_state []) (db_path_of (example_world ''1'' (Some 1)))"
    by (simp add: path_exists_def example_env)
  have k: "keep_of (example_world ''1'' (Some 1)) \<noteq> None"
    by (simp add: example_env)
  from source_not_found_no_side_effects [OF h] k
  have m: "main (example_world ''1'' (Some 1)) (example_state []) =
      (SysExit 1, (example_state [])\<lparr>err := err (example_state []) @
         [''DB not found: '' @ db_path_of (example_world ''1'' (Some 1))]\<rparr>)"
    by blast
  have h': "\<not> path_exists (example_state []) (db_path_of (example_world ''abc'' None))"
    by (simp add: path_exists_def example_env)
  have k': "keep_of (example_world ''abc'' None) = None"
    by (simp add: example_env)
  from source_not_found_no_side_effects [OF h'] k'
  have m': "main (example_world ''abc'' None) (example_state []) =
      (Uncaught ValueError, example_state [])"
    by blast
  have r: "run (example_world ''1'' (Some 1)) (example_state []) =
     (1, \<lparr>store = [], source = example_source, out = [], err = [''DB not found: d''],
          trace = []\<rparr>)"
    using m by (simp add: run_def example_env example_state_def)
  have p: "\<not> path_exists (example_state []) ''d'' \<and> \<not> path_exists (example_state []) ''b''"
    by (simp add: path_exists_def example_state_def lookup_def)
  show ?thesis using p r m' by blast
qed

text \<open>
  C5, the claim as stated fails: with no database and a retention count that does not
  parse, the run does not report the missing database: it ends with the uncaught
  \<open>ValueError\<close> of line 13, and stderr holds that traceback, not the \<open>DB not found\<close> line.
\<close>

theorem missing_source_reported_as_value_error:
  "\<not> path_exists (example_state []) ''d'' \<and>
   main (example_world ''abc'' None) (example_state []) = (Uncaught ValueError, example_state []) \<and>
   err (snd (run (example_world ''abc'' None) (example_state []))) = [traceback ValueError] \<and>
   traceback ValueError \<noteq> ''DB not found: d''"
proof -
  have k: "keep_of (example_world ''abc'' None) = None" by (simp add: example_env)
  have m: "main (example_world ''abc'' None) (example_state []) =
      (Uncaught ValueError, example_state [])"
    by (simp add: main_def k)
  have e: "err (snd (run (example_world ''abc'' None) (example_state []))) = [traceback ValueError]"
    by (simp add: run_def m) (simp add: example_state_def)
  have t: "traceback ValueError \<noteq> ''DB not found: d''" by (simp add: traceback_def)
  have p: "\<not> path_exists (example_state []) ''d''" by (simp add: path_exists_def)
  show ?thesis using p m e t by simp
qed

text \<open>
  C2 (as amended). When the retention count does not parse as an integer, line 13 raises
  \<open>ValueError\<close> before anything else is done: the process exits with status 1, and the
  store, the source database's files, the log of filesystem calls and stdout are as
  before. A count that parses, a negative one included, is accepted: the run never ends
  with that error, and it returns normally exactly when every later step succeeds.
\<close>

theorem unparsable_keep_fails_fast:
  "(keep_of w = None \<longrightarrow>
      main w s = (Uncaught ValueError, s) \<and>
      run w s = (1, s\<lparr>err := err s @ [traceback ValueError]\<rparr>)) \<and>
   (\<forall>k. keep_of w = Some k \<longrightarrow>
      fst (main w s) \<noteq> Uncaught ValueError \<and>
      (fst (main w s) = Returned \<longleftrightarrow> steps_succeed w s))"
proof -
  have 1: "main w s = (Uncaught ValueError, s) \<and>
      run w s = (1, s\<lparr>err := err s @ [traceback ValueError]\<rparr>)" if "keep_of w = None"
    using that by (simp add: run_def main_def)
  have 2: "fst (main w s) \<noteq> Uncaught ValueError" if "keep_of w = Some k" for k
    using that main_value_error [of w s] by auto
  show ?thesis using 1 2 main_Returned_iff by blast
qed

theorem unparsable_keep_witness:
  "keep_of (example_world ''abc'' None) = None \<and>
   run (example_world ''abc'' None) (example_state [(''d'', File ''D'')]) =
     (1, \<lparr>store = [(''d'', File ''D'')], source = example_source, out = [],
          err = [traceback ValueError], trace = []\<rparr>) \<and>
   keep_of (example_world ''-7'' (Some (- 7))) = Some (- 7) \<and>
   fst (main (example_world ''-7'' (Some (- 7))) (example_state [(''d'', File ''D'')])) = Returned"
proof -
  have k: "keep_of (example_world ''abc'' None) = None" by (simp add: example_env)
  from unparsable_keep_fails_fast [of "example_world ''abc'' None" "example_state [(''d'', File ''D'')]"] k
  have "run (example_world ''abc'' None) (example_state [(''d'', File ''D'')]) =
      (1, (example_state [(''d'', File ''D'')])\<lparr>err := err (example_state [(''d'', File ''D'')]) @
         [traceback ValueError]\<rparr>)"
    by blast
  then have r: "run (example_world ''abc'' None) (example_state [(''d'', File ''D'')]) =
     (1, \<lparr>store = [(''d'', File ''D'')], source = example_source, out = [],
          err = [traceback ValueError], trace = []\<rparr>)"
    by (simp add: example_state_def)
  have k': "keep_of (example_world ''-7'' (Some (- 7))) = Some (- 7)" by (simp add: example_env)
  have st: "steps_succeed (example_world ''-7'' (Some (- 7))) (example_state [(''d'', File ''D'')])"
    by (rule steps_succeed_calls)
       (simp_all add: example_calls example_env example_paths path_exists_def)
  from unparsable_keep_fails_fast [of "example_world ''-7'' (Some (- 7))"
      "example_state [(''d'', File ''D'')]"] k' st
  have m: "fst (main (example_world ''-7'' (Some (- 7))) (example_state [(''d'', File ''D'')])) =
      Returned"
    by blast
  show ?thesis using k r k' m by blast
qed

text \<open>
  C2, the claim as stated fails: \<open>-1\<close> is not a non-negative integer, yet with it (and a
  database at hand) the run exits with status 0 and has created the output directory.
\<close>

theorem negative_keep_is_accepted:
  "keep_of (example_world ''-1'' (Some (- 1))) = Some (- 1) \<and>
   \<not> path_exists (example_state [(''d'', File ''D'')]) ''b'' \<and>
   fst (run (example_world ''-1'' (Some (- 1))) (example_state [(''d'', File ''D'')])) = 0 \<and>
   path_exists (snd (run (example_world ''-1'' (Some (- 1))) (example_state [(''d'', File ''D'')]))) ''b''"
proof -
  let ?w = "example_world ''-1'' (Some (- 1))" and ?s = "example_state [(''d'', File ''D'')]"
  have k: "keep_of ?w = Some (- 1)" by (simp add: example_env)
  have st: "steps_succeed ?w ?s"
    by (rule steps_succeed_calls)
       (simp_all add: example_calls example_env example_paths path_exists_def)
  have b: "backup_result ?w = CopyOk ''S''" by (simp add: example_world_def)
  from main_success [OF k st b] obtain s5 where
    m: "main ?w ?s = (Returned, remove_each ?w (out_dir_of ?w) (victims ?w (- 1) ?s) s5)"
    and l: "\<forall>p. lookup s5 p = staged ?w ''S'' ?s p"
    by blast
  have "lookup (snd (main ?w ?s)) ''b'' = Some Dir"
    using backup_path_neq_dir [of _ "''b''"]
    by (auto simp: m lookup_remove_each l staged_def example_env example_paths)
  then show ?thesis
    using k by (simp add: run_def m path_exists_def)
qed

subsection \<open>The online copy\<close>

text \<open>
  C7. The copy is written to the temporary path, which differs from the final artifact
  path. When the copy fails (a database call of lines 26 to 36 is made to fail: the
  connection, the busy-timeout pragma, the connection to the temporary file or the backup
  itself; or, whatever the cause, the run ends with an uncaught database error), the run
  does not return normally, no filesystem call of the run touches the final artifact path,
  and what the store holds at that path is what it held before. So the rename to the final
  path is only ever made after a complete copy.
\<close>

theorem failed_copy_never_reaches_final_name:
  "tmp_out_of w \<noteq> final_out_of w \<and>
   (copy_fails w \<or> fst (main w s) = Uncaught SqliteError \<longrightarrow>
      fst (main w s) \<noteq> Returned \<and>
      lookup (snd (main w s)) (final_out_of w) = lookup s (final_out_of w) \<and>
      (\<forall>op \<in> set (new_ops s (snd (main w s))). final_out_of w \<notin> touches op)) \<and>
   (Rename (tmp_out_of w) (final_out_of w) \<in> set (new_ops s (snd (main w s))) \<longrightarrow>
      \<not> copy_fails w)"
proof -
  have d: "final_out_of w \<notin> {out_dir_of w, tmp_out_of w}"
    using paths_distinct [of w] by auto
  have c: "fst (main w s) \<noteq> Returned \<and>
      lookup (snd (main w s)) (final_out_of w) = lookup s (final_out_of w) \<and>
      (\<forall>op \<in> set (new_ops s (snd (main w s))). final_out_of w \<notin> touches op)"
    if f: "copy_fails w \<or> fst (main w s) = Uncaught SqliteError"
  proof -
    have wi: "within {out_dir_of w, tmp_out_of w} s (snd (main w s))"
      using f main_copy_fails(1) [of w s] main_sqlite_error [of w s] by blast
    have nr: "fst (main w s) \<noteq> Returned"
      using f main_copy_fails(2) [of w s] by auto
    have "\<forall>op \<in> set (new_ops s (snd (main w s))). final_out_of w \<notin> touches op"
      using within_new_ops [OF wi] d by blast
    then show ?thesis
      using nr within_lookup [OF wi d] by simp
  qed
  have "\<not> copy_fails w" if r: "Rename (tmp_out_of w) (final_out_of w) \<in> set (new_ops s (snd (main w s)))"
  proof
    assume "copy_fails w"
    then have "copy_fails w \<or> fst (main w s) = Uncaught SqliteError" by simp
    from c [OF this] r show False by force
  qed
  then show ?thesis
    using c paths_distinct(1) [of w] by blast
qed

theorem failed_copy_witness:
  "copy_fails ((example_world ''1'' (Some 1))\<lparr>backup_result := CopyFailed ''x''\<rparr>) \<and>
   fst (main ((example_world ''1'' (Some 1))\<lparr>backup_result := CopyFailed ''x''\<rparr>)
          (example_state [(''d'', File ''D'')])) \<noteq> Returned \<and>
   lookup (snd (main ((example_world ''1'' (Some 1))\<lparr>backup_result := CopyFailed ''x''\<rparr>)
          (example_state [(''d'', File ''D'')]))) ''b/edrmount.db.20240102-030405.sqlite'' = None"
proof -
  let ?w = "(example_world ''1'' (Some 1))\<lparr>backup_result := CopyFailed ''x''\<rparr>"
  have f: "copy_fails ?w" by (simp add: copy_fails_def is_copy_ok_def)
  have p: "final_out_of ?w = ''b/edrmount.db.20240102-030405.sqlite''"
    using example_paths(2) [of "''1''" "Some 1"]
    by (simp add: final_out_of_def final_name_def out_dir_of_def environ_get_def example_world_def)
  from failed_copy_never_reaches_final_name [of ?w "example_state [(''d'', File ''D'')]"] f
  show ?thesis by (simp add: p)
qed

subsection \<open>Compression\<close>

text \<open>
  C1 (as amended). When the run gets as far as opening the compressed output and the
  gzip write then fails part-way, the \<open>OSError\<close> is not caught: the process exits with
  status 1, the uncompressed snapshot is not deleted (it is still at the \<open>.sqlite\<close> name,
  with the bytes of the copy), and the partial compressed file is left at the \<open>.sqlite.gz\<close>
  name; nothing cleans it up.
\<close>

theorem failed_compression_keeps_snapshot:
  assumes "gzip_opened w s" "backup_result w = CopyOk snap" "gzip_write w = WriteFailed partial"
  shows "fst (main w s) = Uncaught OSError \<and> fst (run w s) = 1 \<and>
         lookup (snd (main w s)) (final_out_of w) = Some (File snap) \<and>
         lookup (snd (main w s)) (final_gz_of w) = Some (File partial) \<and>
         lookup (snd (main w s)) (tmp_out_of w) = None"
proof -
  from main_write_failed [OF assms] obtain s4 where
    m: "main w s = (Uncaught OSError, s4)"
    and l: "lookup s4 (final_gz_of w) = Some (File partial)"
      "lookup s4 (final_out_of w) = Some (File snap)" "lookup s4 (tmp_out_of w) = None"
    by blast
  have "fst (run w s) = 1" by (rule run_Uncaught [of _ _ OSError]) (simp add: m)
  then show ?thesis by (simp add: m l)
qed

theorem failed_compression_witness:
  "gzip_write ((example_world ''1'' (Some 1))\<lparr>gzip_write := WriteFailed ''P''\<rparr>) = WriteFailed ''P'' \<and>
   fst (run ((example_world ''1'' (Some 1))\<lparr>gzip_write := WriteFailed ''P''\<rparr>)
     (example_state [(''d'', File ''D'')])) = 1 \<and>
   lookup (snd (main ((example_world ''1'' (Some 1))\<lparr>gzip_write := WriteFailed ''P''\<rparr>)
     (example_state [(''d'', File ''D'')]))) ''b/edrmount.db.20240102-030405.sqlite'' =
   Some (File ''S'')"
proof -
  let ?w = "(example_world ''1'' (Some 1))\<lparr>gzip_write := WriteFailed ''P''\<rparr>"
  let ?s = "example_state [(''d'', File ''D'')]"
  have e: "environ ?w = environ (example_world ''1'' (Some 1))"
    "keep_int ?w = keep_int (example_world ''1'' (Some 1))"
    "now ?w = now (example_world ''1'' (Some 1))"
    by simp_all
  note p = paths_cong [OF e]
  have g: "gzip_opened ?w ?s"
    by (simp add: gzip_opened_def snapshot_taken_def p example_env example_paths
          path_exists_def)
       (simp add: example_world_def is_copy_ok_def)
  have b: "backup_result ?w = CopyOk ''S''" by (simp add: example_world_def)
  have f: "gzip_write ?w = WriteFailed ''P''" by simp
  from failed_compression_keeps_snapshot [OF g b f] show ?thesis
    by (simp add: p example_paths)
qed

text \<open>
  C1, the claim as stated fails: after a gzip write that failed part-way a file is at the
  final \<open>.sqlite.gz\<close> name, holding the partial output.
\<close>

theorem partial_gzip_left_behind:
  "gzip_opened ((example_world ''1'' (Some 1))\<lparr>gzip_write := WriteFailed ''P''\<rparr>)
     (example_state [(''d'', File ''D'')]) \<and>
   lookup (snd (main ((example_world ''1'' (Some 1))\<lparr>gzip_write := WriteFailed ''P''\<rparr>)
     (example_state [(''d'', File ''D'')]))) ''b/edrmount.db.20240102-030405.sqlite.gz'' =
   Some (File ''P'')"
proof -
  let ?w = "(example_world ''1'' (Some 1))\<lparr>gzip_write := WriteFailed ''P''\<rparr>"
  let ?s = "example_state [(''d'', File ''D'')]"
  have e: "environ ?w = environ (example_world ''1'' (Some 1))"
    "keep_int ?w = keep_int (example_world ''1'' (Some 1))"
    "now ?w = now (example_world ''1'' (Some 1))"
    by simp_all
  note p = paths_cong [OF e]
  have g: "gzip_opened ?w ?s"
    by (simp add: gzip_opened_def snapshot_taken_def p example_env example_paths
          path_exists_def)
       (simp add: example_world_def is_copy_ok_def)
  have b: "backup_result ?w = CopyOk ''S''" by (simp add: example_world_def)
  have f: "gzip_write ?w = WriteFailed ''P''" by simp
  from main_write_failed [OF g b f] show ?thesis
    using g by (auto simp: p example_paths)
qed

text \<open>
  C4 (as amended). A run that returns normally leaves neither its temporary copy nor its
  uncompressed snapshot behind. At most one compressed backup is new afterwards: a file
  with the suffix \<open>.sqlite.gz\<close> that the run has created or rewritten is the one at the
  run's own \<open>.sqlite.gz\<close> name (the source database's own files are left aside: they are
  what the engine makes of them on opening the connection, at the checkpoint when it
  succeeds, and on closing). That file holds the compressed snapshot, and it is there
  unless the rotation of the same run has selected it for deletion (as it does when the
  retention count is 0, or when enough newer names exist): then the run ends with no new
  compressed backup at all.
\<close>

theorem successful_run_leaves_only_the_backup:
  assumes "fst (main w s) = Returned" "keep_of w = Some keep" "backup_result w = CopyOk snap"
  shows "lookup (snd (main w s)) (tmp_out_of w) = None \<and>
         lookup (snd (main w s)) (final_out_of w) = None \<and>
         (gz_name w \<notin> set (victims w keep s) \<longrightarrow>
            lookup (snd (main w s)) (final_gz_of w) = Some (File (gzip w snap))) \<and>
         (lookup (snd (main w s)) (final_gz_of w) = None \<or>
            lookup (snd (main w s)) (final_gz_of w) = Some (File (gzip w snap))) \<and>
         (\<forall>p b. suffix ''.sqlite.gz'' p \<and> p \<notin> set (source_files w) \<and>
                lookup (snd (main w s)) p = Some (File b) \<and> lookup s p \<noteq> Some (File b) \<longrightarrow>
            p = final_gz_of w) \<and>
         source (snd (main w s)) =
           closed w (if checkpoint_ok w then checkpointed w (opened w (source s))
                     else opened w (source s))"
proof -
  have st: "steps_succeed w s" by (rule main_Returned [OF assms(1)])
  note 6 = source_after_run [OF st]
  note l = main_success_final(2) [OF assms(2) st assms(3)]
  have 1: "lookup (snd (main w s)) (tmp_out_of w) = None"
    using paths_distinct [of w] by (simp add: l staged_def)
  have 2: "lookup (snd (main w s)) (final_out_of w) = None"
    using paths_distinct [of w] by (simp add: l staged_def)
  have 3: "lookup (snd (main w s)) (final_gz_of w) = Some (File (gzip w snap))"
    if "gz_name w \<notin> set (victims w keep s)"
    using kept_untouched [OF assms(2) st assms(3) gz_name_is_backup that]
    by (simp add: final_gz_join)
  have 4: "lookup (snd (main w s)) (final_gz_of w) = None \<or>
      lookup (snd (main w s)) (final_gz_of w) = Some (File (gzip w snap))"
    by (simp add: l staged_def)
  have 5: "p = final_gz_of w"
    if "lookup (snd (main w s)) p = Some (File b)" "lookup s p \<noteq> Some (File b)" for p b
    using that by (auto simp: l staged_def split: if_splits)
  show ?thesis using 1 2 3 4 5 6 by blast
qed

theorem successful_run_witness:
  "fst (main (example_world ''1'' (Some 1)) (example_state [(''d'', File ''D'')])) = Returned \<and>
   lookup (snd (main (example_world ''1'' (Some 1)) (example_state [(''d'', File ''D'')])))
     ''b/edrmount.db.20240102-030405.sqlite.gz'' = Some (File ''GS'') \<and>
   lookup (snd (main (example_world ''1'' (Some 1)) (example_state [(''d'', File ''D'')])))
     ''b/edrmount.db.20240102-030405.sqlite'' = None \<and>
   lookup (snd (main (example_world ''1'' (Some 1)) (example_state [(''d'', File ''D'')])))
     ''b/edrmount.db.20240102-030405.tmp'' = None \<and>
   source (snd (main (example_world ''1'' (Some 1)) (example_state [(''d'', File ''D'')]))) =
     \<lparr>main_file = ''DW'', wal_file = None, shm_file = None\<rparr>"
proof -
  let ?w = "example_world ''1'' (Some 1)" and ?s = "example_state [(''d'', File ''D'')]"
  have k: "keep_of ?w = Some 1" by (simp add: example_env)
  have st: "steps_succeed ?w ?s"
    by (rule steps_succeed_calls)
       (simp_all add: example_calls example_env example_paths path_exists_def)
  have r: "fst (main ?w ?s) = Returned" by (simp add: main_Returned_iff st)
  have b: "backup_result ?w = CopyOk ''S''" by (simp add: example_world_def)
  have c: "children ''b'' ?s = []"
    by (simp add: children_def example_state_def child_name_def dir_prefix_def suffix_to_prefix)
  have v: "gz_name ?w \<notin> set (victims ?w 1 ?s)"
    by (simp add: victims_def files_at_rotation_def example_env example_paths c backup_files_def
          sorted_reverse_def is_backup_def suffix_to_prefix slice_from_def)
  have g: "gzip ?w ''S'' = ''GS''" by (simp add: example_world_def)
  note t = successful_run_leaves_only_the_backup [OF r k b]
  from t v r have l: "lookup (snd (main ?w ?s)) ''b/edrmount.db.20240102-030405.sqlite.gz'' =
        Some (File ''GS'') \<and>
      lookup (snd (main ?w ?s)) ''b/edrmount.db.20240102-030405.sqlite'' = None \<and>
      lookup (snd (main ?w ?s)) ''b/edrmount.db.20240102-030405.tmp'' = None"
    by (simp add: example_paths g)
  from t have "source (snd (main ?w ?s)) =
      closed ?w (if checkpoint_ok ?w then checkpointed ?w (opened ?w (source ?s))
                 else opened ?w (source ?s))"
    by blast
  then have e: "source (snd (main ?w ?s)) = \<lparr>main_file = ''DW'', wal_file = None, shm_file = None\<rparr>"
    by (simp add: example_world_def example_state_def example_source_def)
  show ?thesis using r l e by blast
qed

text \<open>
  C4, the claim as stated fails: with the retention count 0 a run exits with status 0 and
  no compressed backup is in the output directory afterwards.
\<close>

theorem keep_zero_leaves_no_backup:
  "fst (run (example_world ''0'' (Some 0)) (example_state [(''d'', File ''D'')])) = 0 \<and>
   lookup (snd (main (example_world ''0'' (Some 0)) (example_state [(''d'', File ''D'')])))
     ''b/edrmount.db.20240102-030405.sqlite.gz'' = None \<and>
   backup_files (children ''b''
     (snd (main (example_world ''0'' (Some 0)) (example_state [(''d'', File ''D'')])))) = []"
proof -
  let ?w = "example_world ''0'' (Some 0)" and ?s = "example_state [(''d'', File ''D'')]"
  have k: "keep_of ?w = Some 0" by (simp add: example_env)
  have st: "steps_succeed ?w ?s"
    by (rule steps_succeed_calls)
       (simp_all add: example_calls example_env example_paths path_exists_def)
  have b: "backup_result ?w = CopyOk ''S''" by (simp add: example_world_def)
  have v: "gz_name ?w \<in> set (victims ?w 0 ?s)"
    using gz_name_in_files [of ?w ?s] by (simp add: victims_def slice_from_def)
  have r: "\<not> remove_denied ?w (path_join (out_dir_of ?w) (gz_name ?w))"
    by (simp add: example_world_def)
  have nd: "lookup ?s (path_join (out_dir_of ?w) (gz_name ?w)) \<noteq> Some Dir"
    by (simp add: final_gz_join [symmetric] example_paths)
  have x: "lookup (snd (main ?w ?s)) (final_gz_of ?w) = None"
    unfolding final_gz_join by (rule victim_removed [OF k st b v r nd])
  have k0: "keep_of ?w = Some (int 0)" by (simp add: k)
  have rem: "\<forall>f \<in> set (victims ?w (int 0) ?s).
            \<not> remove_denied ?w (path_join (out_dir_of ?w) f) \<and>
            lookup ?s (path_join (out_dir_of ?w) f) \<noteq> Some Dir"
    by (simp add: example_oracle)
  have y: "backup_files (children ''b'' (snd (main ?w ?s))) = []"
    using rotation_survivors [OF k0 st rem] by (simp add: example_env)
  from x y main_success_final(1) [OF k st b]
  show ?thesis
    by (simp add: example_paths run_Returned)
qed

subsection \<open>Rotation\<close>

text \<open>
  C6. Once the compressed backup is written and the directory is listed, the failures of
  the deletions of lines 56 to 60 change nothing in the outcome: whatever deletions are
  denied, the run returns normally with status 0, has printed \<open>OK:\<close> and the backup path,
  and has written nothing to stderr. Every selected file gets its own \<open>os.remove\<close> call,
  in order, and each selected file whose removal is not denied (and that is not a
  directory) is gone afterwards, whether or not other removals failed.
\<close>

theorem deletion_failures_are_not_fatal:
  assumes "steps_succeed w s" "keep_of w = Some keep"
  shows "fst (main w s) = Returned \<and> fst (run w s) = 0 \<and>
         out (snd (run w s)) = out s @ [''OK: '' @ final_gz_of w] \<and>
         err (snd (run w s)) = err s \<and>
         new_ops s (snd (main w s)) =
           [MkDir (out_dir_of w), OpenCreate (tmp_out_of w), WriteFile (tmp_out_of w),
            Rename (tmp_out_of w) (final_out_of w), OpenCreate (final_gz_of w),
            WriteFile (final_gz_of w), Unlink (final_out_of w)] @
           map (\<lambda>f. Unlink (path_join (out_dir_of w) f)) (victims w keep s) \<and>
         (\<forall>f \<in> set (victims w keep s).
            \<not> remove_denied w (path_join (out_dir_of w) f) \<and>
            lookup s (path_join (out_dir_of w) f) \<noteq> Some Dir \<longrightarrow>
            lookup (snd (main w s)) (path_join (out_dir_of w) f) = None)"
proof -
  from steps_succeed_copy [OF assms(1)] obtain snap where b: "backup_result w = CopyOk snap"
    by blast
  note f = main_success_final [OF assms(2) assms(1) b]
  have r: "run w s = (0, snd (main w s))" by (rule run_Returned [OF f(1)])
  have n: "new_ops s (snd (main w s)) =
           [MkDir (out_dir_of w), OpenCreate (tmp_out_of w), WriteFile (tmp_out_of w),
            Rename (tmp_out_of w) (final_out_of w), OpenCreate (final_gz_of w),
            WriteFile (final_gz_of w), Unlink (final_out_of w)] @
           map (\<lambda>f. Unlink (path_join (out_dir_of w) f)) (victims w keep s)"
    by (rule new_ops_append [OF f(3)])
  have v: "\<forall>f \<in> set (victims w keep s).
            \<not> remove_denied w (path_join (out_dir_of w) f) \<and>
            lookup s (path_join (out_dir_of w) f) \<noteq> Some Dir \<longrightarrow>
            lookup (snd (main w s)) (path_join (out_dir_of w) f) = None"
    using victim_removed [OF assms(2) assms(1) b] by blast
  show ?thesis
    using f(1) f(4) f(5) n v by (simp add: r)
qed

theorem deletion_failures_witness:
  "remove_denied ((example_world ''1'' (Some 1))\<lparr>remove_denied := (\<lambda>p. p = ''b/edrmount.db.1.sqlite.gz'')\<rparr>)
     ''b/edrmount.db.1.sqlite.gz'' \<and>
   victims ((example_world ''1'' (Some 1))\<lparr>remove_denied := (\<lambda>p. p = ''b/edrmount.db.1.sqlite.gz'')\<rparr>) 1
     (example_state old_backups) = [''edrmount.db.2.sqlite.gz'', ''edrmount.db.1.sqlite.gz''] \<and>
   fst (run ((example_world ''1'' (Some 1))\<lparr>remove_denied := (\<lambda>p. p = ''b/edrmount.db.1.sqlite.gz'')\<rparr>)
     (example_state old_backups)) = 0 \<and>
   lookup (snd (main ((example_world ''1'' (Some 1))\<lparr>remove_denied := (\<lambda>p. p = ''b/edrmount.db.1.sqlite.gz'')\<rparr>)
     (example_state old_backups))) ''b/edrmount.db.2.sqlite.gz'' = None"
proof -
  let ?w = "(example_world ''1'' (Some 1))\<lparr>remove_denied := (\<lambda>p. p = ''b/edrmount.db.1.sqlite.gz'')\<rparr>"
  let ?s = "example_state old_backups"
  note p = paths_cong [OF deny_one_world]
  have k: "keep_of ?w = Some 1" by (simp add: p example_env)
  have c: "calls_succeed ?w"
    using example_calls [of "''1''" "Some 1"] by (simp add: calls_succeed_def p example_paths)
  have st: "steps_succeed ?w ?s"
    by (rule steps_succeed_calls)
       (simp_all add: c p example_env example_paths path_exists_def
          old_backups_def)
  have v: "victims ?w 1 ?s = [''edrmount.db.2.sqlite.gz'', ''edrmount.db.1.sqlite.gz'']"
    by (simp add: files_cong [OF deny_one_world] victims_def files_old slice_from_def)
  have o: "out_dir_of ?w = ''b''" by (simp add: p example_env)
  from deletion_failures_are_not_fatal [OF st k]
  have r: "fst (run ?w ?s) = 0" and
    a: "\<forall>f \<in> set (victims ?w 1 ?s).
            \<not> remove_denied ?w (path_join (out_dir_of ?w) f) \<and>
            lookup ?s (path_join (out_dir_of ?w) f) \<noteq> Some Dir \<longrightarrow>
            lookup (snd (main ?w ?s)) (path_join (out_dir_of ?w) f) = None"
    by blast+
  have m: "''edrmount.db.2.sqlite.gz'' \<in> set (victims ?w 1 ?s)"
    by (simp add: v)
  have j: "path_join ''b'' ''edrmount.db.2.sqlite.gz'' = ''b/edrmount.db.2.sqlite.gz''"
    by (simp add: path_join_def suffix_to_prefix)
  have "lookup (snd (main ?w ?s)) ''b/edrmount.db.2.sqlite.gz'' = None"
    using bspec [OF a m] by (simp add: o j old_backups_def)
  then show ?thesis using v r by simp
qed

text \<open>
  C8. A retention count that parses as a negative integer \<open>-k\<close> is no configuration
  error: when every other step succeeds the run returns normally. The slice of line 56 is
  then the last \<open>min k total\<close> names of the descending list, that is the \<open>min k total\<close>
  least (oldest) names; these and no others get an \<open>os.remove\<close> call; each of them is
  gone afterwards when its removal is not denied; every other backup, however many there
  are, is still there, unchanged (the new one holding the compressed snapshot).
\<close>

theorem negative_keep_deletes_the_oldest:
  assumes "keep_of w = Some (- int k)" "0 < k" "steps_succeed w s" "backup_result w = CopyOk snap"
  shows "fst (main w s) = Returned \<and> fst (run w s) = 0 \<and>
         sorted (rev (files_at_rotation w s)) \<and>
         victims w (- int k) s =
           rev (take (min k (length (files_at_rotation w s))) (rev (files_at_rotation w s))) \<and>
         victims w (- int k) s =
           drop (length (files_at_rotation w s) - min k (length (files_at_rotation w s)))
             (files_at_rotation w s) \<and>
         length (victims w (- int k) s) = min k (length (files_at_rotation w s)) \<and>
         new_ops s (snd (main w s)) =
           [MkDir (out_dir_of w), OpenCreate (tmp_out_of w), WriteFile (tmp_out_of w),
            Rename (tmp_out_of w) (final_out_of w), OpenCreate (final_gz_of w),
            WriteFile (final_gz_of w), Unlink (final_out_of w)] @
           map (\<lambda>f. Unlink (path_join (out_dir_of w) f)) (victims w (- int k) s) \<and>
         (\<forall>f \<in> set (victims w (- int k) s).
            \<not> remove_denied w (path_join (out_dir_of w) f) \<and>
            lookup s (path_join (out_dir_of w) f) \<noteq> Some Dir \<longrightarrow>
            lookup (snd (main w s)) (path_join (out_dir_of w) f) = None) \<and>
         (\<forall>f \<in> set (files_at_rotation w s) - set (victims w (- int k) s).
            lookup (snd (main w s)) (path_join (out_dir_of w) f) \<noteq> None \<and>
            lookup (snd (main w s)) (path_join (out_dir_of w) f) =
              (if f = gz_name w then Some (File (gzip w snap))
               else lookup s (path_join (out_dir_of w) f)))"
proof -
  let ?files = "files_at_rotation w s"
  let ?m = "min k (length ?files)"
  note f = main_success_final [OF assms(1) assms(3) assms(4)]
  have r: "fst (run w s) = 0" by (simp add: run_Returned [OF f(1)])
  have s: "sorted (rev ?files)" by (simp add: files_at_rotation_def sorted_rev_backup_files)
  have v1: "victims w (- int k) s = drop (length ?files - ?m) ?files"
    by (simp add: victims_def slice_from_negative [OF assms(2)])
  have v2: "victims w (- int k) s = rev (take ?m (rev ?files))"
    by (simp add: v1 rev_take)
  have v3: "length (victims w (- int k) s) = ?m"
    by (simp add: v1)
  have n: "new_ops s (snd (main w s)) =
           [MkDir (out_dir_of w), OpenCreate (tmp_out_of w), WriteFile (tmp_out_of w),
            Rename (tmp_out_of w) (final_out_of w), OpenCreate (final_gz_of w),
            WriteFile (final_gz_of w), Unlink (final_out_of w)] @
           map (\<lambda>f. Unlink (path_join (out_dir_of w) f)) (victims w (- int k) s)"
    by (rule new_ops_append [OF f(3)])
  have d: "\<forall>f \<in> set (victims w (- int k) s).
            \<not> remove_denied w (path_join (out_dir_of w) f) \<and>
            lookup s (path_join (out_dir_of w) f) \<noteq> Some Dir \<longrightarrow>
            lookup (snd (main w s)) (path_join (out_dir_of w) f) = None"
    using victim_removed [OF assms(1) assms(3) assms(4)] by blast
  have kept: "lookup (snd (main w s)) (path_join (out_dir_of w) f) \<noteq> None \<and>
            lookup (snd (main w s)) (path_join (out_dir_of w) f) =
              (if f = gz_name w then Some (File (gzip w snap))
               else lookup s (path_join (out_dir_of w) f))"
    if m: "f \<in> set ?files - set (victims w (- int k) s)" for f
  proof -
    from m have b: "is_backup f" by (simp add: set_files_at_rotation)
    from m have nv: "f \<notin> set (victims w (- int k) s)" by simp
    note e = kept_untouched [OF assms(1) assms(3) assms(4) b nv]
    show ?thesis
    proof (cases "f = gz_name w")
      case True
      then show ?thesis using e by simp
    next
      case False
      then show ?thesis using e files_present [OF assms(3) _ False] m by simp
    qed
  qed
  show ?thesis
    using f(1) r s v1 v2 v3 n d kept by blast
qed

theorem negative_keep_witness:
  "keep_of (example_world ''-1'' (Some (- 1))) = Some (- 1) \<and>
   fst (run (example_world ''-1'' (Some (- 1))) (example_state old_backups)) = 0 \<and>
   victims (example_world ''-1'' (Some (- 1))) (- 1) (example_state old_backups) = [''edrmount.db.1.sqlite.gz''] \<and>
   lookup (snd (main (example_world ''-1'' (Some (- 1))) (example_state old_backups)))
     ''b/edrmount.db.1.sqlite.gz'' = None \<and>
   lookup (snd (main (example_world ''-1'' (Some (- 1))) (example_state old_backups)))
     ''b/edrmount.db.2.sqlite.gz'' = Some (File ''b'')"
proof -
  let ?w = "example_world ''-1'' (Some (- 1))" and ?s = "example_state old_backups"
  have k: "keep_of ?w = Some (- int 1)" by (simp add: example_env)
  have st: "steps_succeed ?w ?s"
    by (rule steps_succeed_calls)
       (simp_all add: example_calls example_env example_paths path_exists_def
          old_backups_def)
  have b: "backup_result ?w = CopyOk ''S''" by (simp add: example_world_def)
  have j: "path_join ''b'' ''edrmount.db.1.sqlite.gz'' = ''b/edrmount.db.1.sqlite.gz''"
    "path_join ''b'' ''edrmount.db.2.sqlite.gz'' = ''b/edrmount.db.2.sqlite.gz''"
    by (simp_all add: path_join_def suffix_to_prefix)
  note t = negative_keep_deletes_the_oldest [OF k zero_less_one st b]
  have r: "fst (run ?w ?s) = 0"
    and v: "victims ?w (- int 1) ?s =
           drop (length (files_at_rotation ?w ?s) - min 1 (length (files_at_rotation ?w ?s)))
             (files_at_rotation ?w ?s)"
    and d: "\<forall>f \<in> set (victims ?w (- int 1) ?s).
            \<not> remove_denied ?w (path_join (out_dir_of ?w) f) \<and>
            lookup ?s (path_join (out_dir_of ?w) f) \<noteq> Some Dir \<longrightarrow>
            lookup (snd (main ?w ?s)) (path_join (out_dir_of ?w) f) = None"
    and e: "\<forall>f \<in> set (files_at_rotation ?w ?s) - set (victims ?w (- int 1) ?s).
            lookup (snd (main ?w ?s)) (path_join (out_dir_of ?w) f) \<noteq> None \<and>
            lookup (snd (main ?w ?s)) (path_join (out_dir_of ?w) f) =
              (if f = gz_name ?w then Some (File (gzip ?w ''S''))
               else lookup ?s (path_join (out_dir_of ?w) f))"
    using t by blast+
  have v': "victims ?w (- 1) ?s = [''edrmount.db.1.sqlite.gz'']"
    using v by (simp add: files_old)
  have m1: "''edrmount.db.1.sqlite.gz'' \<in> set (victims ?w (- int 1) ?s)"
    using v' by simp
  have 1: "lookup (snd (main ?w ?s)) ''b/edrmount.db.1.sqlite.gz'' = None"
    using bspec [OF d m1] by (simp add: example_env example_oracle j old_backups_def)
  have m2: "''edrmount.db.2.sqlite.gz'' \<in>
      set (files_at_rotation ?w ?s) - set (victims ?w (- int 1) ?s)"
    using v' by (simp add: files_old)
  have 2: "lookup (snd (main ?w ?s)) ''b/edrmount.db.2.sqlite.gz'' = Some (File ''b'')"
    using bspec [OF e m2] by (simp add: example_env example_paths j old_backups_def)
  show ?thesis using k r v' 1 2 by simp
qed

text \<open>
  C3 (as amended). For a run that returns normally with a retention count \<open>n \<ge> 0\<close>, all
  of whose attempted deletions succeed: the matching names listed in the output directory
  afterwards are exactly the first \<open>n\<close> of the descending list of line 52, that is the \<open>n\<close>
  greatest (newest) names among the previous backups and the new one; their number is the
  minimum of \<open>n\<close> and the length of that list; the list has one name more than there were
  backups before, unless a backup with the timestamp of this run was already there, which
  the run overwrites: then it has as many. With \<open>n = 0\<close> no matching name is left.
\<close>

theorem rotation_keeps_the_newest:
  assumes "fst (main w s) = Returned" "keep_of w = Some (int n)"
    "\<forall>f \<in> set (victims w (int n) s).
            \<not> remove_denied w (path_join (out_dir_of w) f) \<and>
            lookup s (path_join (out_dir_of w) f) \<noteq> Some Dir"
  shows "backup_files (children (out_dir_of w) (snd (main w s))) = take n (files_at_rotation w s) \<and>
         length (backup_files (children (out_dir_of w) (snd (main w s)))) =
           min n (length (files_at_rotation w s)) \<and>
         sorted (rev (files_at_rotation w s)) \<and>
         set (files_at_rotation w s) =
           insert (gz_name w) (set (backup_files (children (out_dir_of w) s))) \<and>
         length (files_at_rotation w s) =
           (if gz_name w \<in> set (children (out_dir_of w) s)
            then length (backup_files (children (out_dir_of w) s))
            else length (backup_files (children (out_dir_of w) s)) + 1) \<and>
         (n = 0 \<longrightarrow> backup_files (children (out_dir_of w) (snd (main w s))) = [])"
proof -
  have st: "steps_succeed w s" by (rule main_Returned [OF assms(1)])
  note a = rotation_survivors [OF assms(2) st assms(3)]
  have s: "sorted (rev (files_at_rotation w s))"
    by (simp add: files_at_rotation_def sorted_rev_backup_files)
  have e: "set (files_at_rotation w s) =
      insert (gz_name w) (set (backup_files (children (out_dir_of w) s)))"
    using gz_name_is_backup [of w] by (auto simp: set_files_at_rotation set_backup_files)
  show ?thesis
    using s e length_files_at_rotation [of w s] by (simp add: a)
qed

theorem rotation_keeps_the_newest_witness:
  "fst (main (example_world ''2'' (Some 2)) (example_state old_backups)) = Returned \<and>
   keep_of (example_world ''2'' (Some 2)) = Some 2 \<and>
   victims (example_world ''2'' (Some 2)) 2 (example_state old_backups) = [''edrmount.db.1.sqlite.gz''] \<and>
   backup_files (children ''b'' (example_state old_backups)) =
     [''edrmount.db.2.sqlite.gz'', ''edrmount.db.1.sqlite.gz''] \<and>
   backup_files (children ''b'' (snd (main (example_world ''2'' (Some 2)) (example_state old_backups)))) =
     [''edrmount.db.20240102-030405.sqlite.gz'', ''edrmount.db.2.sqlite.gz'']"
proof -
  let ?w = "example_world ''2'' (Some 2)" and ?s = "example_state old_backups"
  have k: "keep_of ?w = Some (int 2)" by (simp add: example_env)
  have st: "steps_succeed ?w ?s"
    by (rule steps_succeed_calls)
       (simp_all add: example_calls example_env example_paths path_exists_def
          old_backups_def)
  have r: "fst (main ?w ?s) = Returned" by (simp add: main_Returned_iff st)
  have v: "victims ?w 2 ?s = [''edrmount.db.1.sqlite.gz'']"
    by (simp add: victims_def files_old slice_from_def)
  have rem: "\<forall>f \<in> set (victims ?w (int 2) ?s).
            \<not> remove_denied ?w (path_join (out_dir_of ?w) f) \<and>
            lookup ?s (path_join (out_dir_of ?w) f) \<noteq> Some Dir"
  proof -
    have "\<forall>f \<in> set [''edrmount.db.1.sqlite.gz''].
            \<not> remove_denied ?w (path_join (out_dir_of ?w) f) \<and>
            lookup ?s (path_join (out_dir_of ?w) f) \<noteq> Some Dir"
      by (simp add: example_oracle example_env path_join_def suffix_to_prefix old_backups_def)
    with v show ?thesis by simp
  qed
  have p: "backup_files (children ''b'' ?s) =
      [''edrmount.db.2.sqlite.gz'', ''edrmount.db.1.sqlite.gz'']"
    by (simp add: children_old backup_files_def sorted_reverse_def is_backup_def suffix_to_prefix)
  from rotation_keeps_the_newest [OF r k rem]
  have "backup_files (children (out_dir_of ?w) (snd (main ?w ?s))) = take 2 (files_at_rotation ?w ?s)"
    by blast
  then show ?thesis
    using r k v p by (simp add: example_env files_old)
qed

text \<open>
  C3, the claim as stated fails: one backup is there before, carrying the timestamp of the
  run; the retention count is 5 and no deletion is attempted. After the run there is one
  matching file, not \<open>min 5 (1 + 1) = 2\<close>.
\<close>

theorem same_second_backup_is_not_counted_twice:
  "fst (main (example_world ''5'' (Some 5)) (example_state same_second_store)) = Returned \<and>
   keep_of (example_world ''5'' (Some 5)) = Some 5 \<and>
   victims (example_world ''5'' (Some 5)) 5 (example_state same_second_store) = [] \<and>
   length (backup_files (children ''b'' (example_state same_second_store))) = 1 \<and>
   length (backup_files (children ''b''
     (snd (main (example_world ''5'' (Some 5)) (example_state same_second_store))))) = 1 \<and>
   (1::nat) \<noteq> min 5 (1 + 1)"
proof -
  let ?w = "example_world ''5'' (Some 5)" and ?s = "example_state same_second_store"
  have k: "keep_of ?w = Some (int 5)" by (simp add: example_env)
  have st: "steps_succeed ?w ?s"
    by (rule steps_succeed_calls)
       (simp_all add: example_calls example_env example_paths path_exists_def
          same_second_store_def)
  have v: "victims ?w 5 ?s = []"
    by (simp add: victims_def files_same_second slice_from_def)
  have rem: "\<forall>f \<in> set (victims ?w (int 5) ?s).
            \<not> remove_denied ?w (path_join (out_dir_of ?w) f) \<and>
            lookup ?s (path_join (out_dir_of ?w) f) \<noteq> Some Dir"
    by (simp add: v)
  have a: "backup_files (children ''b'' (snd (main ?w ?s))) = take 5 (files_at_rotation ?w ?s)"
    using rotation_survivors [OF k st rem] by (simp add: example_env)
  have p: "length (backup_files (children ''b'' ?s)) = 1"
    by (simp add: children_same_second backup_files_def sorted_reverse_def is_backup_def
          suffix_to_prefix)
  show ?thesis
    using k v p by (simp add: a files_same_second main_Returned_iff st)
qed

text \<open>
  C9 (as amended). The rotation step only ever calls \<open>os.remove\<close> on names that start
  with \<open>edrmount.db.\<close> and end with \<open>.sqlite.gz\<close>; so it changes no path ending in
  \<open>.tmp\<close> or \<open>.sqlite\<close>, stale leftovers of earlier failed runs included. Over a whole
  run such a leftover is still there, unchanged, provided it is not at the temporary or
  the snapshot path of this very run (that is, it carries another timestamp): a leftover at
  the run's own \<open>.sqlite\<close> path is overwritten by the rename of line 42 and removed by
  line 47.
\<close>

theorem rotation_deletes_only_backups:
  "(\<forall>op \<in> set (new_ops s (snd (rotate w d keep s))).
      \<exists>f. is_backup f \<and> op = Unlink (path_join d f)) \<and>
   (\<forall>p. suffix ''.tmp'' p \<or> suffix ''.sqlite'' p \<longrightarrow>
      lookup (snd (rotate w d keep s)) p = lookup s p) \<and>
   (\<forall>p. (suffix ''.tmp'' p \<or> suffix ''.sqlite'' p) \<and>
        p \<noteq> tmp_out_of w \<and> p \<noteq> final_out_of w \<and> p \<noteq> out_dir_of w \<longrightarrow>
      lookup (snd (main w s)) p = lookup s p)"
proof -
  have 1: "\<forall>op \<in> set (new_ops s (snd (rotate w d keep s))).
      \<exists>f. is_backup f \<and> op = Unlink (path_join d f)"
    using rotate_ops by blast
  have 2: "lookup (snd (rotate w d keep s)) p = lookup s p"
    if "suffix ''.tmp'' p \<or> suffix ''.sqlite'' p" for p
    by (rule within_lookup [OF rotate_within leftover_not_backup(1) [OF that]])
  have 3: "lookup (snd (main w s)) p = lookup s p"
    if "suffix ''.tmp'' p \<or> suffix ''.sqlite'' p"
      "p \<noteq> tmp_out_of w" "p \<noteq> final_out_of w" "p \<noteq> out_dir_of w" for p
  proof (rule within_lookup [OF main_within])
    show "p \<notin> {out_dir_of w, tmp_out_of w, final_out_of w, final_gz_of w} \<union> backup_paths (out_dir_of w)"
      using that leftover_not_backup [OF that(1)] by auto
  qed
  show ?thesis using 1 2 3 by blast
qed

theorem rotation_deletes_only_backups_witness:
  "suffix ''.tmp'' ''b/edrmount.db.20230101-000000.tmp'' \<and>
   lookup (snd (main (example_world ''0'' (Some 0)) (example_state stale_store)))
     ''b/edrmount.db.20230101-000000.tmp'' = Some (File ''t'')"
proof -
  let ?w = "example_world ''0'' (Some 0)" and ?s = "example_state stale_store"
  let ?p = "''b/edrmount.db.20230101-000000.tmp''"
  have a: "suffix ''.tmp'' ?p" by (simp add: suffix_to_prefix)
  have b: "?p \<noteq> tmp_out_of ?w" "?p \<noteq> final_out_of ?w" "?p \<noteq> out_dir_of ?w"
    by (simp_all add: example_paths example_env)
  from rotation_deletes_only_backups [of ?s ?w "''b''" 0] a b
  have "lookup (snd (main ?w ?s)) ?p = lookup ?s ?p" by blast
  then show ?thesis using a by (simp add: stale_store_def)
qed

text \<open>
  C9, the claim as stated fails: a stale uncompressed snapshot that carries the timestamp
  of the run is gone after a run that returns normally.
\<close>

theorem same_second_leftover_is_removed:
  "suffix ''.sqlite'' ''b/edrmount.db.20240102-030405.sqlite'' \<and>
   lookup (example_state stale_store) ''b/edrmount.db.20240102-030405.sqlite'' = Some (File ''u'') \<and>
   fst (main (example_world ''1'' (Some 1)) (example_state stale_store)) = Returned \<and>
   lookup (snd (main (example_world ''1'' (Some 1)) (example_state stale_store)))
     ''b/edrmount.db.20240102-030405.sqlite'' = None"
proof -
  let ?w = "example_world ''1'' (Some 1)" and ?s = "example_state stale_store"
  have k: "keep_of ?w = Some 1" by (simp add: example_env)
  have st: "steps_succeed ?w ?s"
    by (rule steps_succeed_calls)
       (simp_all add: example_calls example_env example_paths path_exists_def
          stale_store_def)
  have 1: "lookup (snd (main ?w ?s)) (final_out_of ?w) = None"
    using paths_distinct [of ?w]
    by (simp add: main_success_final(2) [OF k st example_oracle(3)] staged_def)
  have 2: "fst (main ?w ?s) = Returned" by (simp add: main_Returned_iff st)
  have 3: "lookup ?s ''b/edrmount.db.20240102-030405.sqlite'' = Some (File ''u'')"
    by (simp add: stale_store_def)
  have 4: "suffix ''.sqlite'' ''b/edrmount.db.20240102-030405.sqlite''"
    by (simp add: suffix_to_prefix)
  show ?thesis
    using 1 2 3 4 by (simp only: example_paths)
qed

subsection \<open>Two runs in the same second\<close>

text \<open>
  C10 (as amended). Let a first run get at least as far as creating its compressed output
  (it may then have completed, or failed and left its \<open>.sqlite\<close> and \<open>.sqlite.gz\<close> files
  behind), and let a second run start from the state the first one left, with the same
  timestamp and output directory, a database still in place and every call of its own
  succeeding. Then the second run raises nothing at the collision: it returns normally,
  its rename and its compressed-output open overwrite whatever the first run left at the
  same names, and neither its temporary nor its uncompressed file remains. Afterwards
  there is at most one compressed backup for that timestamp, and if there is one it holds
  the second run's snapshot; it is there unless the rotation of the second run selected it
  for deletion.
\<close>

theorem same_second_rerun_overwrites:
  assumes "gzip_opened w1 s0" "now w2 = now w1" "out_dir_of w2 = out_dir_of w1"
    "calls_succeed w2" "keep_of w2 = Some keep" "backup_result w2 = CopyOk snap2"
    "path_exists (snd (main w1 s0)) (db_path_of w2)"
    "lookup (snd (main w1 s0)) (db_path_of w2) \<noteq> Some Dir"
  shows "tmp_out_of w2 = tmp_out_of w1 \<and> final_out_of w2 = final_out_of w1 \<and>
         final_gz_of w2 = final_gz_of w1 \<and>
         fst (main w2 (snd (main w1 s0))) = Returned \<and>
         lookup (snd (main w2 (snd (main w1 s0)))) (tmp_out_of w2) = None \<and>
         lookup (snd (main w2 (snd (main w1 s0)))) (final_out_of w2) = None \<and>
         (gz_name w2 \<notin> set (victims w2 keep (snd (main w1 s0))) \<longrightarrow>
            lookup (snd (main w2 (snd (main w1 s0)))) (final_gz_of w2) =
              Some (File (gzip w2 snap2))) \<and>
         (lookup (snd (main w2 (snd (main w1 s0)))) (final_gz_of w2) = None \<or>
          lookup (snd (main w2 (snd (main w1 s0)))) (final_gz_of w2) =
              Some (File (gzip w2 snap2)))"
proof -
  let ?s1 = "snd (main w1 s0)"
  have k: "keep_of w2 \<noteq> None" using assms(5) by simp
  have st: "steps_succeed w2 ?s1"
    by (rule rerun_steps_succeed [OF assms(1) assms(2) assms(3) assms(4) k assms(7) assms(8)])
  note n = names_cong [OF assms(2) assms(3)]
  note l = main_success_final(2) [OF assms(5) st assms(6)]
  have 1: "lookup (snd (main w2 ?s1)) (tmp_out_of w2) = None"
    using paths_distinct [of w2] by (simp add: l staged_def)
  have 2: "lookup (snd (main w2 ?s1)) (final_out_of w2) = None"
    using paths_distinct [of w2] by (simp add: l staged_def)
  have 3: "lookup (snd (main w2 ?s1)) (final_gz_of w2) = Some (File (gzip w2 snap2))"
    if "gz_name w2 \<notin> set (victims w2 keep ?s1)"
    using kept_untouched [OF assms(5) st assms(6) gz_name_is_backup that]
    by (simp add: final_gz_join)
  have 4: "lookup (snd (main w2 ?s1)) (final_gz_of w2) = None \<or>
      lookup (snd (main w2 ?s1)) (final_gz_of w2) = Some (File (gzip w2 snap2))"
    by (simp add: l staged_def)
  show ?thesis
    using n(1) n(2) n(3) main_success_final(1) [OF assms(5) st assms(6)] 1 2 3 4 by blast
qed

theorem same_second_rerun_witness:
  "lookup (snd (main ((example_world ''1'' (Some 1))\<lparr>gzip_write := WriteFailed ''P''\<rparr>)
       (example_state [(''d'', File ''D'')])))
     ''b/edrmount.db.20240102-030405.sqlite'' = Some (File ''S'') \<and>
   lookup (snd (main ((example_world ''1'' (Some 1))\<lparr>gzip_write := WriteFailed ''P''\<rparr>)
       (example_state [(''d'', File ''D'')])))
     ''b/edrmount.db.20240102-030405.sqlite.gz'' = Some (File ''P'') \<and>
   fst (main ((example_world ''1'' (Some 1))\<lparr>backup_result := CopyOk ''T''\<rparr>)
     (snd (main ((example_world ''1'' (Some 1))\<lparr>gzip_write := WriteFailed ''P''\<rparr>)
       (example_state [(''d'', File ''D'')])))) = Returned \<and>
   lookup (snd (main ((example_world ''1'' (Some 1))\<lparr>backup_result := CopyOk ''T''\<rparr>)
     (snd (main ((example_world ''1'' (Some 1))\<lparr>gzip_write := WriteFailed ''P''\<rparr>)
       (example_state [(''d'', File ''D'')])))))
     ''b/edrmount.db.20240102-030405.sqlite'' = None \<and>
   lookup (snd (main ((example_world ''1'' (Some 1))\<lparr>backup_result := CopyOk ''T''\<rparr>)
     (snd (main ((example_world ''1'' (Some 1))\<lparr>gzip_write := WriteFailed ''P''\<rparr>)
       (example_state [(''d'', File ''D'')])))))
     ''b/edrmount.db.20240102-030405.sqlite.gz'' = Some (File ''GT'')"
proof -
  let ?w1 = "(example_world ''1'' (Some 1))\<lparr>gzip_write := WriteFailed ''P''\<rparr>"
  let ?w2 = "(example_world ''1'' (Some 1))\<lparr>backup_result := CopyOk ''T''\<rparr>"
  let ?s0 = "example_state [(''d'', File ''D'')]"
  let ?s1 = "snd (main ?w1 ?s0)"
  have e1: "environ ?w1 = environ (example_world ''1'' (Some 1))"
    "keep_int ?w1 = keep_int (example_world ''1'' (Some 1))"
    "now ?w1 = now (example_world ''1'' (Some 1))"
    by simp_all
  have e2: "environ ?w2 = environ (example_world ''1'' (Some 1))"
    "keep_int ?w2 = keep_int (example_world ''1'' (Some 1))"
    "now ?w2 = now (example_world ''1'' (Some 1))"
    by simp_all
  note p1 = paths_cong [OF e1] and p2 = paths_cong [OF e2]
  have g1: "gzip_opened ?w1 ?s0"
    by (simp add: gzip_opened_def snapshot_taken_def p1 example_env example_paths
          path_exists_def)
       (simp add: example_world_def is_copy_ok_def)
  have b1: "backup_result ?w1 = CopyOk ''S''" by (simp add: example_world_def)
  have f1: "gzip_write ?w1 = WriteFailed ''P''" by simp
  note l1 = main_write_failed_lookup [OF g1 b1 f1]
  have a1: "lookup ?s1 ''b/edrmount.db.20240102-030405.sqlite'' = Some (File ''S'')"
    using l1 [of "final_out_of ?w1"] paths_distinct [of ?w1]
    by (simp add: p1(5) example_paths)
  have a2: "lookup ?s1 ''b/edrmount.db.20240102-030405.sqlite.gz'' = Some (File ''P'')"
    using l1 [of "final_gz_of ?w1"] by (simp add: p1(6) example_paths)
  have n: "now ?w2 = now ?w1" by simp
  have o: "out_dir_of ?w2 = out_dir_of ?w1" by (simp add: p1 p2)
  have c2: "calls_succeed ?w2"
    using example_calls [of "''1''" "Some 1"] by (simp add: calls_succeed_def p2 is_copy_ok_def)
  have k2: "keep_of ?w2 = Some 1" by (simp add: p2 example_env)
  have b2: "backup_result ?w2 = CopyOk ''T''" by simp
  have d: "lookup ?s1 ''d'' = Some (File ''D'')"
    using example_db_untouched [OF e1, of ?s0] by simp
  have d1: "path_exists ?s1 (db_path_of ?w2)" by (simp add: p2 example_env path_exists_def d)
  have d2: "lookup ?s1 (db_path_of ?w2) \<noteq> Some Dir" by (simp add: p2 example_env d)
  have single: "\<forall>f. is_backup f \<and> f \<in> set (children (out_dir_of ?w2) ?s1) \<longrightarrow> f = gz_name ?w2"
  proof (intro allI impI)
    fix f assume h: "is_backup f \<and> f \<in> set (children (out_dir_of ?w2) ?s1)"
    then have "lookup ?s1 (''b/'' @ f) \<noteq> None"
      by (simp add: set_children p2 example_env dir_prefix_def suffix_to_prefix)
    then have "f = ''edrmount.db.20240102-030405.sqlite.gz'' \<or> f = ''edrmount.db.20240102-030405.sqlite''"
      by (simp add: l1 p1 example_paths example_env split: if_splits)
    moreover have "\<not> is_backup ''edrmount.db.20240102-030405.sqlite''"
      by (simp add: is_backup_def suffix_to_prefix)
    ultimately show "f = gz_name ?w2" using h by (auto simp: p2 example_paths)
  qed
  have v: "gz_name ?w2 \<notin> set (victims ?w2 1 ?s1)"
    by (simp add: victims_def files_at_rotation_single [OF single] slice_from_def)
  note t = same_second_rerun_overwrites [OF g1 n o c2 k2 b2 d1 d2]
  have r: "fst (main ?w2 ?s1) = Returned" using t by blast
  have x: "lookup (snd (main ?w2 ?s1)) (final_out_of ?w2) = None" using t by blast
  have gg: "gzip ?w2 ''T'' = ''GT''" by (simp add: example_world_def)
  have "lookup (snd (main ?w2 ?s1)) (final_gz_of ?w2) = Some (File (gzip ?w2 ''T''))"
    using t v by blast
  then have y: "lookup (snd (main ?w2 ?s1)) (final_gz_of ?w2) = Some (File ''GT'')"
    by (simp only: gg)
  have pf: "final_out_of ?w2 = ''b/edrmount.db.20240102-030405.sqlite''"
    "final_gz_of ?w2 = ''b/edrmount.db.20240102-030405.sqlite.gz''"
    by (simp_all add: p2 example_paths)
  show ?thesis
    using a1 a2 r x y by (simp only: pf)
qed

text \<open>
  C10, the claim as stated fails: the second of two runs in the same second, with the
  retention count 0, raises nothing, and afterwards no compressed backup exists for that
  timestamp, although the first run had left one.
\<close>

theorem same_second_rerun_can_delete_the_backup:
  "now (example_world ''0'' (Some 0)) = now (example_world ''1'' (Some 1)) \<and>
   lookup (snd (main (example_world ''1'' (Some 1)) (example_state [(''d'', File ''D'')])))
     ''b/edrmount.db.20240102-030405.sqlite.gz'' = Some (File ''GS'') \<and>
   fst (main (example_world ''0'' (Some 0))
     (snd (main (example_world ''1'' (Some 1)) (example_state [(''d'', File ''D'')])))) = Returned \<and>
   lookup (snd (main (example_world ''0'' (Some 0))
     (snd (main (example_world ''1'' (Some 1)) (example_state [(''d'', File ''D'')])))))
     ''b/edrmount.db.20240102-030405.sqlite.gz'' = None"
proof -
  let ?w1 = "example_world ''1'' (Some 1)" and ?w2 = "example_world ''0'' (Some 0)"
  let ?s0 = "example_state [(''d'', File ''D'')]"
  let ?s1 = "snd (main ?w1 ?s0)"
  have k1: "keep_of ?w1 = Some 1" by (simp add: example_env)
  have st1: "steps_succeed ?w1 ?s0"
    by (rule steps_succeed_calls)
       (simp_all add: example_calls example_env example_paths path_exists_def)
  have c: "children ''b'' ?s0 = []"
    by (simp add: children_def example_state_def child_name_def dir_prefix_def suffix_to_prefix)
  have v1: "gz_name ?w1 \<notin> set (victims ?w1 1 ?s0)"
    by (simp add: victims_def files_at_rotation_def example_env example_paths c backup_files_def
          sorted_reverse_def is_backup_def suffix_to_prefix slice_from_def)
  have l1: "lookup ?s1 (final_gz_of ?w1) = Some (File ''GS'')"
    using kept_untouched [OF k1 st1 example_oracle(3) gz_name_is_backup v1]
    by (simp add: final_gz_join example_oracle)
  have g1: "gzip_opened ?w1 ?s0" using st1 by (simp add: steps_succeed_def)
  have n: "now ?w2 = now ?w1" by (simp add: example_world_def)
  have o: "out_dir_of ?w2 = out_dir_of ?w1" by (simp add: example_env)
  have k2: "keep_of ?w2 = Some 0" by (simp add: example_env)
  have d: "lookup ?s1 ''d'' = Some (File ''D'')"
    using example_db_untouched [OF refl refl refl, of "''1''" "Some 1" ?s0] by simp
  have st2: "steps_succeed ?w2 ?s1"
    by (rule rerun_steps_succeed [OF g1 n o example_calls])
       (simp_all add: example_env path_exists_def d)
  have v2: "gz_name ?w2 \<in> set (victims ?w2 0 ?s1)"
    using gz_name_in_files [of ?w2 ?s1] by (simp add: victims_def slice_from_def)
  have r2: "\<not> remove_denied ?w2 (path_join (out_dir_of ?w2) (gz_name ?w2))"
    by (simp add: example_oracle)
  have e: "final_gz_of ?w2 = final_gz_of ?w1" by (simp add: example_paths)
  have nd: "lookup ?s1 (path_join (out_dir_of ?w2) (gz_name ?w2)) \<noteq> Some Dir"
    using l1 by (simp add: final_gz_join [symmetric] e)
  have l2: "lookup (snd (main ?w2 ?s1)) (final_gz_of ?w2) = None"
    unfolding final_gz_join by (rule victim_removed [OF k2 st2 example_oracle(3) v2 r2 nd])
  have r: "fst (main ?w2 ?s1) = Returned" by (simp add: main_Returned_iff st2)
  show ?thesis
    using n l1 l2 r by (simp only: example_paths)
qed

end
